theory Spec2Isabelle
  imports Main "HOL-Library.Word"
begin

section \<open>Thread manager (kern/thread.c): data model\<close>

text \<open>
  The thread manager keeps its threads in \<open>struct thread\<close> objects that are reached
  through pointers: from the table \<open>thrtab\<close>, from the thread pointer register
  (\<open>CURTHR\<close>), from the \<open>parent\<close> field and from the \<open>list_next\<close> links of
  the ready list and of the wait lists of conditions. The model keeps this shape: a
  pointer to a thread is an address, a nullable pointer is an \<open>option\<close>, and the
  memory holding the thread structs is a function from addresses to records, so that a
  store through one pointer is seen through every alias.

  The saved register context of a thread and the assembly routines working on it
  (thrasm.s) are not among the sources and are not modelled; neither are the
  interrupt-enable bit and the active address space, which no operation below reads.
\<close>

text \<open>\<open>#define NTHR 16\<close>, \<open>MAIN_TID\<close> and \<open>IDLE_TID\<close>.\<close>

definition NTHR :: nat where
  "NTHR = 16"



datatype thread_state =
    THREAD_UNINITIALIZED
  | THREAD_STOPPED
  | THREAD_WAITING
  | THREAD_RUNNING
  | THREAD_READY
  | THREAD_EXITED

text \<open>Address of a \<open>struct thread\<close>; \<open>NULL\<close> is \<open>None\<close> of \<open>tptr option\<close>.\<close>

type_synonym tptr = nat

text \<open>
  Address of a \<open>struct condition\<close>: either the \<open>child_exit\<close> member embedded in the
  thread struct at the given address, or a condition that lives elsewhere.
\<close>

datatype cptr = Child_exit tptr | Cond nat

text \<open>\<open>struct thread_list\<close> (thread.h): a head and a tail pointer.\<close>

record thread_list =
  head :: "tptr option"
  tail :: "tptr option"

text \<open>
  \<open>struct thread\<close> without the register context. The wait list of the embedded
  \<open>child_exit\<close> condition is kept with the wait lists of all conditions, under the
  address \<open>Child_exit p\<close>. \<open>proc\<close> is the address of the owning process.
\<close>

record thread =
  name :: string
  stack_base :: "64 word"
  stack_size :: "64 word"
  state :: thread_state
  id_thr :: int
  proc :: "nat option"
  parent :: "tptr option"
  list_next :: "tptr option"
  wait_cond :: "cptr option"

text \<open>
  The kernel state the thread manager works on. \<open>threads\<close> is the memory holding the
  thread structs, \<open>thrtab\<close> the table (only the indices below \<open>NTHR\<close> exist in the
  code), \<open>wait_list\<close> the wait list of every condition, \<open>curthr\<close> the contents of
  the thread pointer register, \<open>kmem\<close> the bytes of the kernel stacks. The two logs
  record the arguments of the calls to \<open>memory_free_page\<close> and \<open>kfree\<close>, whose
  implementations are not among the sources.
\<close>

record kstate =
  threads :: "tptr \<Rightarrow> thread"
  thrtab :: "nat \<Rightarrow> tptr option"
  ready_list :: thread_list
  wait_list :: "cptr \<Rightarrow> thread_list"
  curthr :: tptr
  kmem :: "64 word \<Rightarrow> 8 word"
  freed_pages :: "64 word list"
  kfreed :: "tptr list"

text \<open>
  How a call can end without returning to its caller: \<open>panic\<close>, a failed \<open>assert\<close>
  (which panics with the asserted expression), \<open>halt_success\<close>, an access to
  \<open>thrtab\<close> outside its bounds and a load through \<open>NULL\<close>, neither of which the
  C code checks.
\<close>

datatype halt =
    Panic string
  | Assertion_failed string
  | Halt_success
  | Out_of_bounds int
  | Null_dereference

section \<open>Thread table lookups\<close>

text \<open>\<open>thrtab[tid]\<close> for a C \<open>int\<close> index.\<close>

definition thrtab_at :: "kstate \<Rightarrow> int \<Rightarrow> halt + tptr option" where
  "thrtab_at s tid =
     (if 0 \<le> tid \<and> tid < int NTHR then Inr (thrtab s (nat tid)) else Inl (Out_of_bounds tid))"

text \<open>The range condition as the three accessors write it: \<open>0 <= tid || tid < NTHR\<close>.\<close>

definition tid_range_asserted :: "int \<Rightarrow> bool" where
  "tid_range_asserted tid = (0 \<le> tid \<or> tid < int NTHR)"

definition thread_process :: "kstate \<Rightarrow> int \<Rightarrow> halt + nat option" where
  "thread_process s tid =
     (if \<not> tid_range_asserted tid then Inl (Assertion_failed ''0 <= tid || tid < NTHR'')
      else case thrtab_at s tid of
             Inl e \<Rightarrow> Inl e
           | Inr None \<Rightarrow> Inl (Assertion_failed ''thrtab[tid] != NULL'')
           | Inr (Some p) \<Rightarrow> Inr (proc (threads s p)))"

definition thread_set_process :: "int \<Rightarrow> nat option \<Rightarrow> kstate \<Rightarrow> halt + kstate" where
  "thread_set_process tid pr s =
     (if \<not> tid_range_asserted tid then Inl (Assertion_failed ''0 <= tid || tid < NTHR'')
      else case thrtab_at s tid of
             Inl e \<Rightarrow> Inl e
           | Inr None \<Rightarrow> Inl (Assertion_failed ''thrtab[tid] != NULL'')
           | Inr (Some p) \<Rightarrow>
               Inr (s\<lparr>threads := (threads s)(p := (threads s p)\<lparr>proc := pr\<rparr>)\<rparr>))"

definition thread_name :: "kstate \<Rightarrow> int \<Rightarrow> halt + string" where
  "thread_name s tid =
     (if \<not> tid_range_asserted tid then Inl (Assertion_failed ''0 <= tid || tid < NTHR'')
      else case thrtab_at s tid of
             Inl e \<Rightarrow> Inl e
           | Inr None \<Rightarrow> Inl (Assertion_failed ''thrtab[tid] != NULL'')
           | Inr (Some p) \<Rightarrow> Inr (name (threads s p)))"

section \<open>Thread lists\<close>

text \<open>
  The address of a \<open>struct thread_list\<close>: \<open>&ready_list\<close> or the \<open>wait_list\<close>
  member of a condition.
\<close>

datatype lref = Ready_list | Wait_list cptr

definition get_list :: "kstate \<Rightarrow> lref \<Rightarrow> thread_list" where
  "get_list s l = (case l of Ready_list \<Rightarrow> ready_list s | Wait_list c \<Rightarrow> wait_list s c)"

definition set_list :: "lref \<Rightarrow> thread_list \<Rightarrow> kstate \<Rightarrow> kstate" where
  "set_list l v s =
     (case l of
        Ready_list \<Rightarrow> s\<lparr>ready_list := v\<rparr>
      | Wait_list c \<Rightarrow> s\<lparr>wait_list := (wait_list s)(c := v)\<rparr>)"

text \<open>A store to members of the thread struct at address \<open>p\<close>.\<close>

definition upd_thread :: "tptr \<Rightarrow> (thread \<Rightarrow> thread) \<Rightarrow> kstate \<Rightarrow> kstate" where
  "upd_thread p f s = s\<lparr>threads := (threads s)(p := f (threads s p))\<rparr>"

definition tlclear :: "lref \<Rightarrow> kstate \<Rightarrow> kstate" where
  "tlclear l s = set_list l \<lparr>head = None, tail = None\<rparr> s"

definition tlempty :: "kstate \<Rightarrow> lref \<Rightarrow> bool" where
  "tlempty s l = (head (get_list s l) = None)"

text \<open>
  \<open>tlinsert\<close>. Every caller passes the address of a thread struct, so \<open>thr\<close> is
  never \<open>NULL\<close> here (the C function stores to \<open>thr->list_next\<close> before it tests
  \<open>thr\<close>).
\<close>

definition tlinsert :: "lref \<Rightarrow> tptr \<Rightarrow> kstate \<Rightarrow> halt + kstate" where
  "tlinsert l thr s =
     (let s1 = upd_thread thr (\<lambda>t. t\<lparr>list_next := None\<rparr>) s in
      case tail (get_list s1 l) of
        Some tl_thr \<Rightarrow>
          if head (get_list s1 l) = None then Inl (Assertion_failed ''list->head != NULL'')
          else
            let s2 = upd_thread tl_thr (\<lambda>t. t\<lparr>list_next := Some thr\<rparr>) s1
            in Inr (set_list l ((get_list s2 l)\<lparr>tail := Some thr\<rparr>) s2)
      | None \<Rightarrow>
          if head (get_list s1 l) \<noteq> None then Inl (Assertion_failed ''list->head == NULL'')
          else
            let s2 = set_list l ((get_list s1 l)\<lparr>head := Some thr\<rparr>) s1
            in Inr (set_list l ((get_list s2 l)\<lparr>tail := Some thr\<rparr>) s2))"

definition tlremove :: "lref \<Rightarrow> kstate \<Rightarrow> tptr option \<times> kstate" where
  "tlremove l s =
     (case head (get_list s l) of
        None \<Rightarrow> (None, s)
      | Some thr \<Rightarrow>
          let s1 = set_list l ((get_list s l)\<lparr>head := list_next (threads s thr)\<rparr>) s;
              s2 = (if head (get_list s1 l) \<noteq> None
                    then upd_thread thr (\<lambda>t. t\<lparr>list_next := None\<rparr>) s1
                    else set_list l ((get_list s1 l)\<lparr>tail := None\<rparr>) s1);
              s3 = upd_thread thr (\<lambda>t. t\<lparr>list_next := None\<rparr>) s2
          in (Some thr, s3))"

text \<open>\<open>tlappend\<close>: appends the elements of \<open>l1\<close> to the end of \<open>l0\<close> and clears \<open>l1\<close>.\<close>

definition tlappend :: "lref \<Rightarrow> lref \<Rightarrow> kstate \<Rightarrow> halt + kstate" where
  "tlappend l0 l1 s =
     (let r =
        (if head (get_list s l0) \<noteq> None then
           (case tail (get_list s l0) of
              None \<Rightarrow> Inl (Assertion_failed ''l0->tail != NULL'')
            | Some t0 \<Rightarrow>
                if head (get_list s l1) \<noteq> None then
                  (if tail (get_list s l1) = None
                   then Inl (Assertion_failed ''l1->tail != NULL'')
                   else
                     let s1 = upd_thread t0 (\<lambda>t. t\<lparr>list_next := head (get_list s l1)\<rparr>) s
                     in Inr (set_list l0 ((get_list s1 l0)\<lparr>tail := tail (get_list s1 l1)\<rparr>) s1))
                else Inr s)
         else
           (if tail (get_list s l0) \<noteq> None then Inl (Assertion_failed ''l0->tail == NULL'')
            else
              let s1 = set_list l0 ((get_list s l0)\<lparr>head := head (get_list s l1)\<rparr>) s
              in Inr (set_list l0 ((get_list s1 l0)\<lparr>tail := tail (get_list s1 l1)\<rparr>) s1)))
      in case r of
           Inl e \<Rightarrow> Inl e
         | Inr s2 \<Rightarrow>
             let s3 = set_list l1 ((get_list s2 l1)\<lparr>head := None\<rparr>) s2
             in Inr (set_list l1 ((get_list s3 l1)\<lparr>tail := None\<rparr>) s3))"

section \<open>Scheduler operations\<close>

text \<open>
  The constants of headers that are not among the sources. \<open>PAGE_SIZE\<close> is the 4 KiB
  page of the specification. \<open>struct thread_stack_anchor\<close> has the two members
  \<open>thread_spawn\<close> assigns, the back-pointer \<open>thread\<close> and the word \<open>reserved\<close>,
  eight bytes each on RV64. \<open>struct trap_frame\<close> holds the register array \<open>x\<close>
  (32 slots, slot 0 reserved), \<open>sstatus\<close> and \<open>sepc\<close>; \<open>TFR_A0\<close> is the index of
  \<open>a0\<close>, register x10.
\<close>

definition PAGE_SIZE :: "64 word" where
  "PAGE_SIZE = 4096"

definition sizeof_thread_stack_anchor :: "64 word" where
  "sizeof_thread_stack_anchor = 16"



text \<open>Addresses of the statically allocated \<open>main_thread\<close> and \<open>idle_thread\<close>.\<close>

definition main_thread :: tptr where
  "main_thread = 0"

definition idle_thread :: tptr where
  "idle_thread = 1"

text \<open>Kernel memory: a store of 8 bytes (little endian), its load, and \<open>memcpy\<close>.\<close>

definition store64 :: "(64 word \<Rightarrow> 8 word) \<Rightarrow> 64 word \<Rightarrow> 64 word \<Rightarrow> 64 word \<Rightarrow> 8 word" where
  "store64 m a v = (\<lambda>x. if x - a < 8 then ucast (drop_bit (8 * unat (x - a)) v) else m x)"









text \<open>
  \<open>suspend_self\<close> runs in two threads. Up to the call of \<open>_thread_swtch\<close> it runs in
  the suspending thread; \<open>_thread_swtch\<close> (thrasm.s, not among the sources) makes the
  thread pointer register point to \<open>next_thread\<close>. The statements after the call run
  when a thread that was itself suspended inside \<open>suspend_self\<close> is resumed, with
  \<open>prev_thread\<close> the thread that has just been displaced. \<open>suspend_self_switch\<close> is
  the first half, returning the displaced thread, \<open>suspend_self_return\<close> the second
  half. A thread that runs for the first time starts at its entry function instead, so
  for it the second half does not happen. Which of the two it is depends on the saved
  context of \<open>next_thread\<close>, which is not modelled: \<open>suspend_self\<close> and its callers
  take it as the argument \<open>resumed\<close>.
\<close>

definition suspend_self_switch :: "kstate \<Rightarrow> halt + (tptr \<times> kstate)" where
  "suspend_self_switch s =
     (if tlempty s Ready_list then Inl (Assertion_failed ''!tlempty(&ready_list)'')
      else
        let susp_thread = curthr s in
        case tlremove Ready_list s of
          (None, s1) \<Rightarrow> Inl Null_dereference
        | (Some next_thread, s1) \<Rightarrow>
            if state (threads s1 next_thread) \<noteq> THREAD_READY
            then Inl (Assertion_failed ''next_thread->state == THREAD_READY'')
            else
              let s2 = upd_thread next_thread (\<lambda>t. t\<lparr>state := THREAD_RUNNING\<rparr>) s1 in
              case (if state (threads s2 susp_thread) = THREAD_RUNNING
                    then tlinsert Ready_list susp_thread
                           (upd_thread susp_thread (\<lambda>t. t\<lparr>state := THREAD_READY\<rparr>) s2)
                    else Inr s2) of
                Inl e \<Rightarrow> Inl e
              | Inr s3 \<Rightarrow> Inr (susp_thread, s3\<lparr>curthr := next_thread\<rparr>))"

definition suspend_self_return :: "tptr \<Rightarrow> kstate \<Rightarrow> kstate" where
  "suspend_self_return prev_thread s =
     (if state (threads s prev_thread) = THREAD_EXITED
      then upd_thread prev_thread (\<lambda>t. t\<lparr>stack_base := 0, stack_size := 0\<rparr>)
             (s\<lparr>freed_pages :=
                  freed_pages s @ [stack_base (threads s prev_thread) - PAGE_SIZE]\<rparr>)
      else s)"

definition suspend_self :: "bool \<Rightarrow> kstate \<Rightarrow> halt + kstate" where
  "suspend_self resumed s =
     (case suspend_self_switch s of
        Inl e \<Rightarrow> Inl e
      | Inr (prev_thread, s1) \<Rightarrow>
          Inr (if resumed then suspend_self_return prev_thread s1 else s1))"

definition thread_yield :: "bool \<Rightarrow> kstate \<Rightarrow> halt + kstate" where
  "thread_yield resumed s =
     (if state (threads s (curthr s)) \<noteq> THREAD_RUNNING
      then Inl (Assertion_failed ''CURTHR->state == THREAD_RUNNING'')
      else suspend_self resumed s)"

definition condition_init :: "cptr \<Rightarrow> kstate \<Rightarrow> kstate" where
  "condition_init cond s = tlclear (Wait_list cond) s"


text \<open>
  The loop of \<open>condition_broadcast\<close> over the wait list. It follows \<open>list_next\<close> until
  it finds \<open>NULL\<close>, which it never does on a cyclic list: not returning is \<open>None\<close>.
\<close>

partial_function (option) broadcast_loop ::
  "cptr \<Rightarrow> tptr option \<Rightarrow> kstate \<Rightarrow> (halt + kstate) option" where
  "broadcast_loop cond thr s =
     (case thr of
        None \<Rightarrow> Some (Inr s)
      | Some p \<Rightarrow>
          if state (threads s p) \<noteq> THREAD_WAITING
          then Some (Inl (Assertion_failed ''thr->state == THREAD_WAITING''))
          else if wait_cond (threads s p) \<noteq> Some cond
          then Some (Inl (Assertion_failed ''thr->wait_cond == cond''))
          else
            let s1 = upd_thread p (\<lambda>t. t\<lparr>state := THREAD_READY, wait_cond := None\<rparr>) s
            in broadcast_loop cond (list_next (threads s1 p)) s1)"

definition condition_broadcast :: "cptr \<Rightarrow> kstate \<Rightarrow> (halt + kstate) option" where
  "condition_broadcast cond s =
     (if tlempty s (Wait_list cond) then Some (Inr s)
      else
        case broadcast_loop cond (head (get_list s (Wait_list cond))) s of
          None \<Rightarrow> None
        | Some (Inl e) \<Rightarrow> Some (Inl e)
        | Some (Inr s1) \<Rightarrow>
            (case tlappend Ready_list (Wait_list cond) s1 of
               Inl e \<Rightarrow> Some (Inl e)
             | Inr s2 \<Rightarrow> Some (Inr (tlclear (Wait_list cond) s2))))"

text \<open>
  \<open>thread_exit\<close>. The \<open>panic\<close> after the call of \<open>suspend_self\<close> would run in the
  exited thread if it were ever resumed; the result here is the state in which the
  next thread runs.
\<close>

definition thread_exit :: "bool \<Rightarrow> kstate \<Rightarrow> (halt + kstate) option" where
  "thread_exit resumed s =
     (if curthr s = main_thread then Some (Inl Halt_success)
      else
        let s1 = upd_thread (curthr s) (\<lambda>t. t\<lparr>state := THREAD_EXITED\<rparr>) s in
        case parent (threads s1 (curthr s1)) of
          None \<Rightarrow> Some (Inl (Assertion_failed ''CURTHR->parent != NULL''))
        | Some par \<Rightarrow>
            (case condition_broadcast (Child_exit par) s1 of
               None \<Rightarrow> None
             | Some (Inl e) \<Rightarrow> Some (Inl e)
             | Some (Inr s2) \<Rightarrow> Some (suspend_self resumed s2)))"

text \<open>
  \<open>thread_spawn\<close>. The slot search is the loop
  \<open>tid = 0; while (++tid < NTHR) if (thrtab[tid] == NULL) break;\<close>. The arguments
  \<open>child\<close> and \<open>stack_page\<close> are what \<open>kmalloc\<close> and \<open>memory_alloc_page\<close>
  return; \<open>_thread_setup\<close> writes only the register context.
\<close>

function spawn_find_slot :: "kstate \<Rightarrow> nat \<Rightarrow> nat" where
  "spawn_find_slot s tid =
     (if Suc tid < NTHR
      then (if thrtab s (Suc tid) = None then Suc tid else spawn_find_slot s (Suc tid))
      else Suc tid)"
  by pat_completeness auto
termination
  by (relation "measure (\<lambda>(s, tid). NTHR - tid)") auto

definition thread_spawn :: "string \<Rightarrow> tptr \<Rightarrow> 64 word \<Rightarrow> kstate \<Rightarrow> halt + (kstate \<times> int)" where
  "thread_spawn nm child stack_page s =
     (let tid = spawn_find_slot s 0 in
      if tid = NTHR then Inl (Panic ''Too many threads'')
      else
        let stack_anchor = stack_page + PAGE_SIZE - sizeof_thread_stack_anchor;
            s1 = s\<lparr>kmem := store64 (store64 (kmem s) stack_anchor (of_nat child))
                              (stack_anchor + 8) 0\<rparr>;
            s2 = s1\<lparr>thrtab := (thrtab s1)(tid := Some child)\<rparr>;
            s3 = upd_thread child
                   (\<lambda>t. t\<lparr>id_thr := int tid, name := nm, parent := Some (curthr s2),
                          proc := proc (threads s2 (curthr s2)),
                          stack_base := stack_anchor,
                          stack_size := stack_anchor - stack_page,
                          state := THREAD_READY\<rparr>) s2
        in case tlinsert Ready_list child s3 of
             Inl e \<Rightarrow> Inl e
           | Inr s4 \<Rightarrow> Inr (s4, int tid))"




text \<open>
  \<open>recycle_thread\<close>: the loop \<open>for (ctid = 1; ctid < NTHR; ctid++)\<close> that gives the
  children of \<open>thr\<close> its parent, then the release of the slot and of the struct.
\<close>

function reparent_loop :: "tptr \<Rightarrow> nat \<Rightarrow> kstate \<Rightarrow> kstate" where
  "reparent_loop thr ctid s =
     (if ctid < NTHR
      then reparent_loop thr (Suc ctid)
             (case thrtab s ctid of
                None \<Rightarrow> s
              | Some c \<Rightarrow>
                  if parent (threads s c) = Some thr
                  then upd_thread c (\<lambda>t. t\<lparr>parent := parent (threads s thr)\<rparr>) s
                  else s)
      else s)"
  by pat_completeness auto
termination
  by (relation "measure (\<lambda>(thr, ctid, s). NTHR - ctid)") auto

definition recycle_thread :: "int \<Rightarrow> kstate \<Rightarrow> halt + kstate" where
  "recycle_thread tid s =
     (case thrtab_at s tid of
        Inl e \<Rightarrow> Inl e
      | Inr thr_opt \<Rightarrow>
          (case (if 0 < tid \<and> tid < int NTHR then thr_opt else None) of
             None \<Rightarrow> Inl (Assertion_failed ''0 < tid && tid < NTHR && thr != NULL'')
           | Some thr \<Rightarrow>
               if state (threads s thr) \<noteq> THREAD_EXITED
               then Inl (Assertion_failed ''thr->state == THREAD_EXITED'')
               else
                 let s1 = reparent_loop thr 1 s;
                     s2 = s1\<lparr>thrtab := (thrtab s1)(nat tid := None)\<rparr>
                 in Inr (s2\<lparr>kfreed := kfreed s2 @ [thr]\<rparr>)))"

section \<open>Generic I/O helpers and the in-memory literal (io.c)\<close>

text \<open>
  Modelled from the spec: error.h is not among the sources. The specification says the
  error codes are returned as negative integers, so the macros \<open>EINVAL\<close> and
  \<open>ENOTSUP\<close> are positive; no theorem below uses more of the two numbers than that.
\<close>

definition EINVAL :: "64 word" where
  "EINVAL = 1"

definition ENOTSUP :: "64 word" where
  "ENOTSUP = 3"

text \<open>
  A backing operation \<open>io->ops->read\<close> or \<open>io->ops->write\<close>: from the state of
  everything it can touch, the buffer address and the length, to the new state and
  the \<open>long\<close> it returns. A \<open>NULL\<close> function pointer is \<open>None\<close>.
\<close>

type_synonym 's io_op = "'s \<Rightarrow> 64 word \<Rightarrow> 64 word \<Rightarrow> 's \<times> 64 word"

text \<open>
  The loops of \<open>ioread_full\<close> and \<open>iowrite\<close>. \<open>acc\<close> and \<open>cnt\<close> are \<open>long\<close>,
  the length is \<open>unsigned long\<close>: the test \<open>acc < bufsz\<close> compares unsigned, the test
  \<open>cnt < 0\<close> signed, and \<open>acc += cnt\<close> is taken to wrap around. A backing
  operation may keep the loop running for ever: not returning is \<open>None\<close>.
\<close>

partial_function (option) ioread_full_loop ::
  "'s io_op \<Rightarrow> 64 word \<Rightarrow> 64 word \<Rightarrow> 's \<Rightarrow> 64 word \<Rightarrow> ('s \<times> 64 word) option" where
  "ioread_full_loop rd b bufsz s acc =
     (if acc < bufsz then
        (case rd s (b + acc) (bufsz - acc) of
           (s', cnt) \<Rightarrow>
             if sint cnt < 0 then Some (s', cnt)
             else if cnt = 0 then Some (s', acc)
             else ioread_full_loop rd b bufsz s' (acc + cnt))
      else Some (s, acc))"

definition ioread_full ::
  "'s io_op option \<Rightarrow> 64 word \<Rightarrow> 64 word \<Rightarrow> 's \<Rightarrow> ('s \<times> 64 word) option" where
  "ioread_full rd_op b bufsz s =
     (case rd_op of
        None \<Rightarrow> Some (s, - ENOTSUP)
      | Some rd \<Rightarrow> ioread_full_loop rd b bufsz s 0)"

partial_function (option) iowrite_loop ::
  "'s io_op \<Rightarrow> 64 word \<Rightarrow> 64 word \<Rightarrow> 's \<Rightarrow> 64 word \<Rightarrow> ('s \<times> 64 word) option" where
  "iowrite_loop wr b n s acc =
     (if acc < n then
        (case wr s (b + acc) (n - acc) of
           (s', cnt) \<Rightarrow>
             if sint cnt < 0 then Some (s', cnt)
             else if cnt = 0 then Some (s', acc)
             else iowrite_loop wr b n s' (acc + cnt))
      else Some (s, acc))"

definition iowrite ::
  "'s io_op option \<Rightarrow> 64 word \<Rightarrow> 64 word \<Rightarrow> 's \<Rightarrow> ('s \<times> 64 word) option" where
  "iowrite wr_op b n s =
     (case wr_op of
        None \<Rightarrow> Some (s, - ENOTSUP)
      | Some wr \<Rightarrow> iowrite_loop wr b n s 0)"

text \<open>
  \<open>struct io_lit\<close>: \<open>buf\<close> is the contents of the block of memory the literal
  presents as a file, \<open>size_lit\<close> its \<open>size\<close> member and \<open>pos\<close> the current
  position. The \<open>io_intf\<close> member (operations and reference count) is not modelled.
\<close>

record io_lit =
  buf :: "8 word list"
  size_lit :: "64 word"
  pos :: "64 word"

definition iolit_init :: "8 word list \<Rightarrow> 64 word \<Rightarrow> io_lit" where
  "iolit_init b sz = \<lparr>buf = b, size_lit = sz, pos = 0\<rparr>"

text \<open>A \<open>memcpy\<close> that leaves the block of the literal or the caller's buffer.\<close>

datatype io_fault = Memcpy_outside_buffer

text \<open>
  \<open>io_lit_read\<close> returns the \<open>long\<close> result, the literal and the bytes that
  \<open>memcpy\<close> has put at the start of the caller's buffer. The sum \<open>lit->pos + bufsz\<close>
  is an \<open>unsigned long\<close> and wraps around.
\<close>

definition io_lit_read ::
  "io_lit \<Rightarrow> 64 word \<Rightarrow> io_fault + (64 word \<times> io_lit \<times> 8 word list)" where
  "io_lit_read lit bufsz =
     (if pos lit \<ge> size_lit lit then Inr (- EINVAL, lit, [])
      else
        let bytes_to_read =
              (if pos lit + bufsz > size_lit lit then size_lit lit - pos lit else bufsz)
        in if length (buf lit) < unat (pos lit) + unat bytes_to_read
           then Inl Memcpy_outside_buffer
           else Inr (0, lit\<lparr>pos := pos lit + bytes_to_read\<rparr>,
                     take (unat bytes_to_read) (drop (unat (pos lit)) (buf lit))))"

text \<open>\<open>io_lit_write\<close>; \<open>src\<close> is the contents of the caller's buffer.\<close>

definition io_lit_write ::
  "io_lit \<Rightarrow> 8 word list \<Rightarrow> 64 word \<Rightarrow> io_fault + (64 word \<times> io_lit)" where
  "io_lit_write lit src n =
     (if pos lit \<ge> size_lit lit then Inr (- EINVAL, lit)
      else
        let bytes_to_write =
              (if pos lit + n > size_lit lit then size_lit lit - pos lit else n)
        in if length (buf lit) < unat (pos lit) + unat bytes_to_write
              \<or> length src < unat bytes_to_write
           then Inl Memcpy_outside_buffer
           else Inr (0, lit\<lparr>buf := take (unat (pos lit)) (buf lit)
                                   @ take (unat bytes_to_write) src
                                   @ drop (unat (pos lit) + unat bytes_to_write) (buf lit),
                              pos := pos lit + bytes_to_write\<rparr>))"

text \<open>
  The commands of \<open>io_lit_ioctl\<close>. io.h is not among the sources: the four case
  labels of the \<open>switch\<close> are the constructors, every other number is \<open>IOCTL_other\<close>.
  The result is the \<open>int\<close> returned, the literal and the value left in \<open>*arg\<close>.
\<close>

datatype ioctl_cmd =
    IOCTL_GETLEN
  | IOCTL_SETPOS
  | IOCTL_GETPOS
  | IOCTL_GETBLKSZ
  | IOCTL_other int

fun io_lit_ioctl :: "io_lit \<Rightarrow> ioctl_cmd \<Rightarrow> 64 word \<Rightarrow> int \<times> io_lit \<times> 64 word" where
  "io_lit_ioctl lit IOCTL_GETLEN arg = (0, lit, size_lit lit)"
| "io_lit_ioctl lit IOCTL_SETPOS arg = (0, lit\<lparr>pos := arg\<rparr>, arg)"
| "io_lit_ioctl lit IOCTL_GETPOS arg = (0, lit, pos lit)"
| "io_lit_ioctl lit IOCTL_GETBLKSZ arg = (0, lit, 4096)"
| "io_lit_ioctl lit (IOCTL_other c) arg = (- 1, lit, arg)"

section \<open>Properties of backing operations\<close>

text \<open>
  A backing operation that never reports more bytes than it was asked for: what it
  returns is negative (an error code) or at most the length it was given.
\<close>

definition returns_at_most_asked :: "'s io_op \<Rightarrow> bool" where
  "returns_at_most_asked f = (\<forall>s a n. sint (snd (f s a n)) < 0 \<or> snd (f s a n) \<le> n)"

text \<open>
  The behaviour the specification gives to \<open>ioread_full\<close> and \<open>iowrite\<close>, in its own
  words: starting with \<open>acc\<close> bytes done, the helper stops when the full length has
  been transferred; when the backing operation returns a negative code, which is the
  result; when the backing operation returns 0, and the result is the bytes accumulated
  so far; and otherwise goes on with the bytes of this call added.
\<close>

inductive full_transfer ::
  "'s io_op \<Rightarrow> 64 word \<Rightarrow> 64 word \<Rightarrow> 's \<Rightarrow> 64 word \<Rightarrow> 's \<times> 64 word \<Rightarrow> bool" where
  transferred: "\<not> acc < n \<Longrightarrow> full_transfer f b n s acc (s, acc)"
| failed: "acc < n \<Longrightarrow> f s (b + acc) (n - acc) = (s', cnt) \<Longrightarrow> sint cnt < 0
     \<Longrightarrow> full_transfer f b n s acc (s', cnt)"
| no_progress: "acc < n \<Longrightarrow> f s (b + acc) (n - acc) = (s', 0)
     \<Longrightarrow> full_transfer f b n s acc (s', acc)"
| progress: "acc < n \<Longrightarrow> f s (b + acc) (n - acc) = (s', cnt) \<Longrightarrow> 0 < sint cnt
     \<Longrightarrow> full_transfer f b n s' (acc + cnt) r \<Longrightarrow> full_transfer f b n s acc r"

section \<open>Well-formed thread lists and the scheduler invariant\<close>

text \<open>
  \<open>is_list th h xs\<close>: following \<open>list_next\<close> from the pointer \<open>h\<close> visits exactly
  the threads \<open>xs\<close>, in this order, and then reaches \<open>NULL\<close>.
\<close>

fun is_list :: "(tptr \<Rightarrow> thread) \<Rightarrow> tptr option \<Rightarrow> tptr list \<Rightarrow> bool" where
  "is_list th h [] = (h = None)"
| "is_list th h (x # xs) = (h = Some x \<and> is_list th (list_next (th x)) xs)"

text \<open>
  A \<open>struct thread_list\<close> holds the threads \<open>xs\<close>: its head starts the chain \<open>xs\<close>,
  no thread occurs twice, and its tail points to the last of them.
\<close>

definition tl_wf :: "(tptr \<Rightarrow> thread) \<Rightarrow> thread_list \<Rightarrow> tptr list \<Rightarrow> bool" where
  "tl_wf th l xs =
     (is_list th (head l) xs \<and> distinct xs
      \<and> tail l = (if xs = [] then None else Some (last xs)))"

text \<open>The threads of the table.\<close>

definition live :: "kstate \<Rightarrow> tptr set" where
  "live s = {p. \<exists>i<NTHR. thrtab s i = Some p}"

text \<open>A thread struct with its \<open>list_next\<close> link masked: what the list operations leave alone.\<close>

definition unlinked :: "thread \<Rightarrow> thread" where
  "unlinked t = t\<lparr>list_next := None\<rparr>"

text \<open>The state after the loop of \<open>condition_broadcast\<close> has woken the threads \<open>ws\<close>.\<close>

definition woken :: "tptr list \<Rightarrow> kstate \<Rightarrow> kstate" where
  "woken ws s =
     s\<lparr>threads := (\<lambda>p. if p \<in> set ws
                         then (threads s p)\<lparr>state := THREAD_READY, wait_cond := None\<rparr>
                         else threads s p)\<rparr>"

text \<open>
  The contents of all thread lists at once: \<open>A l\<close> is the sequence of threads held by the
  list at address \<open>l\<close>. Every list is well formed and no thread is in two lists.
\<close>

definition lists_wf :: "kstate \<Rightarrow> (lref \<Rightarrow> tptr list) \<Rightarrow> bool" where
  "lists_wf s A =
     ((\<forall>l. tl_wf (threads s) (get_list s l) (A l))
      \<and> (\<forall>l l'. l \<noteq> l' \<longrightarrow> set (A l) \<inter> set (A l') = {}))"





section \<open>Example states\<close>

text \<open>
  A zeroed thread struct, the conditions without waiters, and the state after
  \<open>thread_init\<close> on zeroed memory with the stacks of main and idle at
  \<open>0x8001F000\<close> and \<open>0x80021000\<close>; the same state with every slot of the table
  taken.
\<close>

definition zero_thread :: thread where
  "zero_thread =
     \<lparr>name = [], stack_base = 0, stack_size = 0, state = THREAD_UNINITIALIZED, id_thr = 0,
      proc = None, parent = None, list_next = None, wait_cond = None\<rparr>"

definition no_waiters :: "cptr \<Rightarrow> thread_list" where
  "no_waiters = (\<lambda>c. \<lparr>head = None, tail = None\<rparr>)"

definition booted :: kstate where
  "booted =
     \<lparr>threads = (\<lambda>p. zero_thread)
        (main_thread := \<lparr>name = ''main'', stack_base = 0x80020000, stack_size = 4096,
                         state = THREAD_RUNNING, id_thr = 0, proc = None,
                         parent = None, list_next = None, wait_cond = None\<rparr>,
         idle_thread := \<lparr>name = ''idle'', stack_base = 0x80022000, stack_size = 4096,
                         state = THREAD_READY, id_thr = 15, proc = None,
                         parent = Some main_thread, list_next = None, wait_cond = None\<rparr>),
      thrtab = (\<lambda>i. None)(0 := Some main_thread, 15 := Some idle_thread),
      ready_list = \<lparr>head = Some idle_thread, tail = Some idle_thread\<rparr>,
      wait_list = no_waiters,
      curthr = main_thread,
      kmem = (\<lambda>a. 0),
      freed_pages = [],
      kfreed = []\<rparr>"

definition full_table :: kstate where
  "full_table = booted\<lparr>thrtab := (\<lambda>i. Some i)\<rparr>"

text \<open>
  The main thread in slot 0, a thread at address 2 in slot 1 that has exited, its child at
  address 3 in slot 2, and a child of main at address 4 in slot 3.
\<close>

definition family :: kstate where
  "family =
     booted\<lparr>threads := (threads booted)
        (2 := zero_thread\<lparr>id_thr := 1, state := THREAD_EXITED, parent := Some main_thread\<rparr>,
         3 := zero_thread\<lparr>id_thr := 2, state := THREAD_READY, parent := Some 2\<rparr>,
         4 := zero_thread\<lparr>id_thr := 3, state := THREAD_READY, parent := Some main_thread\<rparr>),
       thrtab := (thrtab booted)(1 := Some 2, 2 := Some 3, 3 := Some 4)\<rparr>"

text \<open>The idle thread ready, and the threads at 2 and 3 waiting on the condition at 0.\<close>

definition two_waiters :: kstate where
  "two_waiters =
     booted\<lparr>threads := (threads booted)
        (2 := zero_thread\<lparr>id_thr := 1, state := THREAD_WAITING, parent := Some main_thread,
                          wait_cond := Some (Cond 0), list_next := Some 3\<rparr>,
         3 := zero_thread\<lparr>id_thr := 2, state := THREAD_WAITING, parent := Some main_thread,
                          wait_cond := Some (Cond 0)\<rparr>),
       thrtab := (thrtab booted)(1 := Some 2, 2 := Some 3),
       wait_list := no_waiters(Cond 0 := \<lparr>head = Some 2, tail = Some 3\<rparr>)\<rparr>"

text \<open>
  A run from the state after \<open>thread_init\<close>: main spawns a thread (struct at address 2,
  stack page at \<open>0x80100000\<close>) and yields; the idle thread, running for the first
  time, yields; the new thread, running for the first time, exits, and main is resumed
  inside \<open>suspend_self\<close>.
\<close>

definition spawned_thread_exits :: "(halt + kstate) option" where
  "spawned_thread_exits =
     (case thread_spawn ''t'' 2 0x80100000 booted of
        Inl e \<Rightarrow> Some (Inl e)
      | Inr (s1, tid) \<Rightarrow>
          (case thread_yield False s1 of
             Inl e \<Rightarrow> Some (Inl e)
           | Inr s2 \<Rightarrow>
               (case thread_yield False s2 of
                  Inl e \<Rightarrow> Some (Inl e)
                | Inr s3 \<Rightarrow> thread_exit True s3)))"

section \<open>Thread manager: auxiliary lemmas\<close>

declare spawn_find_slot.simps [simp del]
declare reparent_loop.simps [simp del]

lemma threads_upd_thread [simp]:
  "threads (upd_thread p f s) = (threads s)(p := f (threads s p))"
  by (simp add: upd_thread_def)

lemma upd_thread_fields [simp]:
  "thrtab (upd_thread p f s) = thrtab s"
  "ready_list (upd_thread p f s) = ready_list s"
  "wait_list (upd_thread p f s) = wait_list s"
  "curthr (upd_thread p f s) = curthr s"
  "kmem (upd_thread p f s) = kmem s"
  "freed_pages (upd_thread p f s) = freed_pages s"
  "kfreed (upd_thread p f s) = kfreed s"
  by (simp_all add: upd_thread_def)

lemma get_list_upd_thread [simp]: "get_list (upd_thread p f s) l = get_list s l"
  by (simp add: get_list_def split: lref.splits)

lemma get_list_set_list [simp]:
  "get_list (set_list l v s) l' = (if l' = l then v else get_list s l')"
  by (auto simp add: get_list_def set_list_def split: lref.splits)

lemma set_list_fields [simp]:
  "threads (set_list l v s) = threads s"
  "thrtab (set_list l v s) = thrtab s"
  "curthr (set_list l v s) = curthr s"
  "kmem (set_list l v s) = kmem s"
  "freed_pages (set_list l v s) = freed_pages s"
  "kfreed (set_list l v s) = kfreed s"
  by (simp_all add: set_list_def split: lref.splits)

lemma get_list_simps [simp]:
  "get_list s Ready_list = ready_list s"
  "get_list s (Wait_list c) = wait_list s c"
  by (simp_all add: get_list_def)

lemma unlinked_eqD:
  assumes "unlinked t' = unlinked t"
  shows "name t' = name t" "stack_base t' = stack_base t" "stack_size t' = stack_size t"
    "state t' = state t" "id_thr t' = id_thr t" "proc t' = proc t" "parent t' = parent t"
    "wait_cond t' = wait_cond t"
proof -
  have "name (unlinked t') = name (unlinked t)" "stack_base (unlinked t') = stack_base (unlinked t)"
    "stack_size (unlinked t') = stack_size (unlinked t)" "state (unlinked t') = state (unlinked t)"
    "id_thr (unlinked t') = id_thr (unlinked t)" "proc (unlinked t') = proc (unlinked t)"
    "parent (unlinked t') = parent (unlinked t)" "wait_cond (unlinked t') = wait_cond (unlinked t)"
    using assms by simp_all
  then show "name t' = name t" "stack_base t' = stack_base t" "stack_size t' = stack_size t"
    "state t' = state t" "id_thr t' = id_thr t" "proc t' = proc t" "parent t' = parent t"
    "wait_cond t' = wait_cond t"
    by (simp_all add: unlinked_def)
qed

lemma unlinked_update [simp]: "unlinked (t\<lparr>list_next := n\<rparr>) = unlinked t"
  by (simp add: unlinked_def)

lemma spawn_find_slot_full:
  "\<forall>i. t < i \<and> i < NTHR \<longrightarrow> thrtab s i \<noteq> None \<Longrightarrow> t < NTHR \<Longrightarrow> spawn_find_slot s t = NTHR"
proof (induction s t rule: spawn_find_slot.induct)
  case (1 s tid)
  show ?case
  proof (cases "Suc tid < NTHR")
    case True
    then have occ: "thrtab s (Suc tid) \<noteq> None" using "1.prems" by simp
    have "spawn_find_slot s (Suc tid) = NTHR"
      using "1.IH"[OF True occ] "1.prems" True by simp
    then show ?thesis using True occ by (subst spawn_find_slot.simps) simp
  next
    case False
    then show ?thesis using "1.prems" by (subst spawn_find_slot.simps) simp
  qed
qed

lemma spawn_find_slot_least:
  "t < m \<Longrightarrow> m < NTHR \<Longrightarrow> thrtab s m = None
   \<Longrightarrow> \<forall>j. t < j \<and> j < m \<longrightarrow> thrtab s j \<noteq> None \<Longrightarrow> spawn_find_slot s t = m"
proof (induction s t rule: spawn_find_slot.induct)
  case (1 s tid)
  have lt: "Suc tid < NTHR" using "1.prems" by simp
  show ?case
  proof (cases "Suc tid = m")
    case True
    then show ?thesis using lt "1.prems" by (subst spawn_find_slot.simps) simp
  next
    case False
    then have lt2: "Suc tid < m" using "1.prems" by simp
    then have occ: "thrtab s (Suc tid) \<noteq> None" using "1.prems" by simp
    have "spawn_find_slot s (Suc tid) = m"
      using "1.IH"[OF lt occ lt2] "1.prems" by simp
    then show ?thesis using lt occ by (subst spawn_find_slot.simps) auto
  qed
qed

lemma tlinsert_returns:
  assumes "(head (get_list s l) = None) = (tail (get_list s l) = None)"
  shows "\<exists>s'. tlinsert l thr s = Inr s' \<and> thrtab s' = thrtab s \<and> curthr s' = curthr s
            \<and> kmem s' = kmem s \<and> freed_pages s' = freed_pages s \<and> kfreed s' = kfreed s
            \<and> (\<forall>p. unlinked (threads s' p) = unlinked (threads s p))"
  using assms
  by (auto simp add: tlinsert_def Let_def unlinked_def split: option.splits)

lemma thread_spawn_full:
  assumes "\<forall>i. 0 < i \<and> i < NTHR \<longrightarrow> thrtab s i \<noteq> None"
  shows "thread_spawn nm child stack_page s = Inl (Panic ''Too many threads'')"
proof -
  have "spawn_find_slot s 0 = NTHR"
    using spawn_find_slot_full[of 0 s] assms by (simp add: NTHR_def)
  then show ?thesis by (simp add: thread_spawn_def)
qed

lemma thread_spawn_free:
  assumes m: "0 < m" "m < NTHR" "thrtab s m = None"
      "\<forall>j. 0 < j \<and> j < m \<longrightarrow> thrtab s j \<noteq> None"
    and rl: "(head (ready_list s) = None) = (tail (ready_list s) = None)"
  shows "\<exists>s'. thread_spawn nm child stack_page s = Inr (s', int m)
            \<and> thrtab s' = (thrtab s)(m := Some child)
            \<and> id_thr (threads s' child) = int m
            \<and> state (threads s' child) = THREAD_READY
            \<and> stack_base (threads s' child)
                = stack_page + PAGE_SIZE - sizeof_thread_stack_anchor"
proof -
  have f: "spawn_find_slot s 0 = m" using spawn_find_slot_least[OF m] .
  let ?a = "stack_page + PAGE_SIZE - sizeof_thread_stack_anchor"
  let ?s3 = "upd_thread child
                   (\<lambda>t. t\<lparr>id_thr := int m, name := nm, parent := Some (curthr s),
                          proc := proc (threads s (curthr s)),
                          stack_base := ?a,
                          stack_size := ?a - stack_page,
                          state := THREAD_READY\<rparr>)
              (s\<lparr>kmem := store64 (store64 (kmem s) ?a (of_nat child)) (?a + 8) 0,
                  thrtab := (thrtab s)(m := Some child)\<rparr>)"
  have c: "(head (get_list ?s3 Ready_list) = None) = (tail (get_list ?s3 Ready_list) = None)"
    using rl by simp
  from tlinsert_returns[OF c, of child] obtain s' where
    s': "tlinsert Ready_list child ?s3 = Inr s'" "thrtab s' = thrtab ?s3"
        "\<forall>p. unlinked (threads s' p) = unlinked (threads ?s3 p)"
    by blast
  have flds: "id_thr (threads s' child) = int m" "state (threads s' child) = THREAD_READY"
    "stack_base (threads s' child) = ?a"
    using unlinked_eqD[OF s'(3)[rule_format, of child]] by simp_all
  have "thread_spawn nm child stack_page s = Inr (s', int m)"
    using f m(2) s'(1) by (simp add: thread_spawn_def Let_def)
  then show ?thesis using s'(2) flds by simp
qed



lemma reparent_loop_frame:
  "thrtab (reparent_loop thr k s) = thrtab s
   \<and> ready_list (reparent_loop thr k s) = ready_list s
   \<and> wait_list (reparent_loop thr k s) = wait_list s
   \<and> curthr (reparent_loop thr k s) = curthr s
   \<and> kmem (reparent_loop thr k s) = kmem s
   \<and> freed_pages (reparent_loop thr k s) = freed_pages s
   \<and> kfreed (reparent_loop thr k s) = kfreed s"
proof (induction thr k s rule: reparent_loop.induct)
  case (1 thr ctid s)
  show ?case
  proof (cases "ctid < NTHR")
    case True
    then show ?thesis using "1.IH"
      by (subst (1 2 3 4 5 6 7) reparent_loop.simps) (simp split: option.splits)
  next
    case False
    then show ?thesis by (subst (1 2 3 4 5 6 7) reparent_loop.simps) simp
  qed
qed

lemma reparent_loop_threads:
  "threads (reparent_loop thr k s) p =
     (if (\<exists>i. k \<le> i \<and> i < NTHR \<and> thrtab s i = Some p) \<and> parent (threads s p) = Some thr
      then (threads s p)\<lparr>parent := parent (threads s thr)\<rparr>
      else threads s p)"
proof (induction thr k s arbitrary: p rule: reparent_loop.induct)
  case (1 thr ctid s)
  show ?case
  proof (cases "ctid < NTHR")
    case False
    then show ?thesis by (subst reparent_loop.simps) auto
  next
    case True
    define s1 where "s1 = (case thrtab s ctid of
                None \<Rightarrow> s
              | Some c \<Rightarrow>
                  if parent (threads s c) = Some thr
                  then upd_thread c (\<lambda>t. t\<lparr>parent := parent (threads s thr)\<rparr>) s
                  else s)"
    have unf: "reparent_loop thr ctid s = reparent_loop thr (Suc ctid) s1"
      using True by (subst reparent_loop.simps) (simp add: s1_def)
    have tab: "thrtab s1 = thrtab s" by (simp add: s1_def split: option.splits)
    have ih: "threads (reparent_loop thr (Suc ctid) s1) p =
     (if (\<exists>i. Suc ctid \<le> i \<and> i < NTHR \<and> thrtab s1 i = Some p) \<and> parent (threads s1 p) = Some thr
      then (threads s1 p)\<lparr>parent := parent (threads s1 thr)\<rparr>
      else threads s1 p)"
      unfolding s1_def by (rule "1.IH"[OF True])
    have th1: "\<And>q. threads s1 q =
       (if thrtab s ctid = Some q \<and> parent (threads s q) = Some thr
        then (threads s q)\<lparr>parent := parent (threads s thr)\<rparr> else threads s q)"
      by (auto simp add: s1_def split: option.splits)
    have pthr: "parent (threads s1 thr) = parent (threads s thr)"
      by (simp add: th1)
    have split: "\<And>P. (\<exists>i. ctid \<le> i \<and> P i) = (P ctid \<or> (\<exists>i. Suc ctid \<le> i \<and> P i))"
      by (metis Suc_leI le_neq_implies_less order_refl Suc_leD)
    show ?thesis
      unfolding unf ih tab pthr th1 split[of "\<lambda>i. i < NTHR \<and> thrtab s i = Some p"]
      using True by auto
  qed
qed

lemma recycle_thread_effect:
  assumes tid: "0 < tid" "tid < int NTHR"
    and thr: "thrtab s (nat tid) = Some thr"
    and ex: "state (threads s thr) = THREAD_EXITED"
  shows "recycle_thread tid s =
           Inr ((reparent_loop thr 1 s)\<lparr>thrtab := (thrtab s)(nat tid := None),
                                          kfreed := kfreed s @ [thr]\<rparr>)"
  using assms reparent_loop_frame[of thr 1 s]
  by (simp add: recycle_thread_def thrtab_at_def Let_def)



lemma is_list_frame:
  "is_list th h xs \<Longrightarrow> \<forall>x\<in>set xs. list_next (th' x) = list_next (th x) \<Longrightarrow> is_list th' h xs"
  by (induction xs arbitrary: h) auto

lemma is_list_unique: "is_list th h xs \<Longrightarrow> is_list th h ys \<Longrightarrow> xs = ys"
proof (induction xs arbitrary: h ys)
  case Nil
  then show ?case by (cases ys) auto
next
  case (Cons x xs)
  then show ?case by (cases ys) auto
qed

lemma is_list_append_link:
  "is_list th h xs \<Longrightarrow> xs \<noteq> [] \<Longrightarrow> distinct xs
   \<Longrightarrow> is_list th' h' ys
   \<Longrightarrow> list_next (th' (last xs)) = h'
   \<Longrightarrow> \<forall>p\<in>set xs. p \<noteq> last xs \<longrightarrow> list_next (th' p) = list_next (th p)
   \<Longrightarrow> is_list th' h (xs @ ys)"
proof (induction xs arbitrary: h)
  case Nil
  then show ?case by simp
next
  case (Cons x xs)
  show ?case
  proof (cases "xs = []")
    case True
    then show ?thesis using Cons.prems by simp
  next
    case False
    then have nl: "x \<noteq> last (x # xs)" using Cons.prems(3) by auto
    have "is_list th' (list_next (th x)) (xs @ ys)"
      using Cons.prems False by (intro Cons.IH) auto
    then show ?thesis using Cons.prems nl by simp
  qed
qed

lemma tl_wf_empty [simp]: "tl_wf th l [] = (head l = None \<and> tail l = None)"
  by (auto simp add: tl_wf_def)

lemma tl_wf_head_None: "tl_wf th l xs \<Longrightarrow> (head l = None) = (xs = [])"
  by (cases xs) (auto simp add: tl_wf_def)

lemma tl_wf_consistent: "tl_wf th l xs \<Longrightarrow> (head l = None) = (tail l = None)"
  by (cases xs) (auto simp add: tl_wf_def)

lemma tl_wf_frame:
  "tl_wf th l xs \<Longrightarrow> \<forall>x\<in>set xs. list_next (th' x) = list_next (th x) \<Longrightarrow> tl_wf th' l xs"
  by (auto simp add: tl_wf_def intro: is_list_frame)



lemma tlappend_wf:
  assumes wf0: "tl_wf (threads s) (get_list s l0) xs"
    and wf1: "tl_wf (threads s) (get_list s l1) ys"
    and dj: "set xs \<inter> set ys = {}" and ne: "l0 \<noteq> l1"
  shows "\<exists>s'. tlappend l0 l1 s = Inr s'
           \<and> tl_wf (threads s') (get_list s' l0) (xs @ ys)
           \<and> get_list s' l1 = (get_list s l1)\<lparr>head := None, tail := None\<rparr>
           \<and> (\<forall>l'. l' \<noteq> l0 \<and> l' \<noteq> l1 \<longrightarrow> get_list s' l' = get_list s l')
           \<and> thrtab s' = thrtab s \<and> curthr s' = curthr s \<and> kmem s' = kmem s
           \<and> freed_pages s' = freed_pages s \<and> kfreed s' = kfreed s
           \<and> (\<forall>p. unlinked (threads s' p) = unlinked (threads s p))
           \<and> (\<forall>p. xs = [] \<or> ys = [] \<or> p \<noteq> last xs \<longrightarrow> threads s' p = threads s p)"
proof (cases "xs = []")
  case True
  then have e: "head (get_list s l0) = None" "tail (get_list s l0) = None"
    using wf0 by auto
  have "tl_wf (threads s)
          ((get_list s l0)\<lparr>head := head (get_list s l1), tail := tail (get_list s l1)\<rparr>) ys"
    using wf1 by (simp add: tl_wf_def)
  then show ?thesis using e True ne
    by (auto simp add: tlappend_def Let_def)
next
  case False
  then have t: "tail (get_list s l0) = Some (last xs)" and h: "head (get_list s l0) \<noteq> None"
    and il: "is_list (threads s) (head (get_list s l0)) xs" and d: "distinct xs"
    using wf0 tl_wf_head_None[OF wf0] by (auto simp add: tl_wf_def)
  show ?thesis
  proof (cases "ys = []")
    case True
    then have e: "head (get_list s l1) = None" "tail (get_list s l1) = None"
      using wf1 by auto
    show ?thesis using t h e True wf0 ne
      by (auto simp add: tlappend_def Let_def)
  next
    case nys: False
    then have t1: "tail (get_list s l1) = Some (last ys)" and h1: "head (get_list s l1) \<noteq> None"
      and il1: "is_list (threads s) (head (get_list s l1)) ys" and d1: "distinct ys"
      using wf1 tl_wf_head_None[OF wf1] by (auto simp add: tl_wf_def)
    let ?th' = "(threads s)(last xs := (threads s (last xs))\<lparr>list_next := head (get_list s l1)\<rparr>)"
    have lx: "last xs \<notin> set ys" using dj False last_in_set by fastforce
    have il1': "is_list ?th' (head (get_list s l1)) ys"
      using lx by (intro is_list_frame[OF il1]) auto
    have chain: "is_list ?th' (head (get_list s l0)) (xs @ ys)"
      by (rule is_list_append_link[OF il False d il1']) auto
    have wf': "tl_wf ?th' ((get_list s l0)\<lparr>tail := Some (last ys)\<rparr>) (xs @ ys)"
      using chain d d1 dj nys by (simp add: tl_wf_def)
    show ?thesis using t h t1 h1 ne wf' False nys
      by (auto simp add: tlappend_def Let_def)
  qed
qed

lemma woken_fields [simp]:
  "thrtab (woken ws s) = thrtab s"
  "ready_list (woken ws s) = ready_list s"
  "wait_list (woken ws s) = wait_list s"
  "curthr (woken ws s) = curthr s"
  "kmem (woken ws s) = kmem s"
  "freed_pages (woken ws s) = freed_pages s"
  "kfreed (woken ws s) = kfreed s"
  "get_list (woken ws s) l = get_list s l"
  "threads (woken ws s) p = (if p \<in> set ws
                         then (threads s p)\<lparr>state := THREAD_READY, wait_cond := None\<rparr>
                         else threads s p)"
  by (simp_all add: woken_def get_list_def split: lref.splits)

lemma woken_Nil [simp]: "woken [] s = s"
  by (simp add: woken_def)

lemma broadcast_loop_wakes:
  "is_list (threads s) h ws \<Longrightarrow> distinct ws
   \<Longrightarrow> \<forall>p\<in>set ws. state (threads s p) = THREAD_WAITING \<and> wait_cond (threads s p) = Some c
   \<Longrightarrow> broadcast_loop c h s = Some (Inr (woken ws s))"
proof (induction ws arbitrary: s h)
  case Nil
  then show ?case by (subst broadcast_loop.simps) simp
next
  case (Cons x xs)
  let ?s1 = "upd_thread x (\<lambda>t. t\<lparr>state := THREAD_READY, wait_cond := None\<rparr>) s"
  have h: "h = Some x" using Cons.prems by simp
  have il0: "is_list (threads s) (list_next (threads s x)) xs" using Cons.prems by simp
  have il: "is_list (threads ?s1) (list_next (threads ?s1 x)) xs"
    using Cons.prems(2) by (auto intro: is_list_frame[OF il0])
  have ih: "broadcast_loop c (list_next (threads ?s1 x)) ?s1 = Some (Inr (woken xs ?s1))"
    using Cons.prems by (intro Cons.IH[OF il]) auto
  have eq: "woken xs ?s1 = woken (x # xs) s"
    using Cons.prems(2) by (auto simp add: woken_def upd_thread_def fun_eq_iff)
  have st: "state (threads s x) = THREAD_WAITING" "wait_cond (threads s x) = Some c"
    using Cons.prems by auto
  have ih': "broadcast_loop c (list_next (threads s x)) ?s1 = Some (Inr (woken (x # xs) s))"
    using ih unfolding eq by simp
  show ?case
    unfolding h
    apply (subst broadcast_loop.simps)
    apply (simp only: option.case st if_False not_False_eq_True simp_thms Let_def)
    apply (simp only: threads_upd_thread fun_upd_same)
    apply (simp add: ih')
    done
qed



lemma tlclear_fields [simp]:
  "threads (tlclear l s) = threads s"
  "thrtab (tlclear l s) = thrtab s"
  "curthr (tlclear l s) = curthr s"
  "kmem (tlclear l s) = kmem s"
  "freed_pages (tlclear l s) = freed_pages s"
  "kfreed (tlclear l s) = kfreed s"
  "get_list (tlclear l s) l' = (if l' = l then \<lparr>head = None, tail = None\<rparr> else get_list s l')"
  by (simp_all add: tlclear_def)

lemma ready_list_get: "ready_list s = get_list s Ready_list"
  by simp

lemma wait_list_get: "wait_list s c = get_list s (Wait_list c)"
  by simp

lemma condition_broadcast_empty:
  "head (wait_list s c) = None \<Longrightarrow> condition_broadcast c s = Some (Inr s)"
  by (simp add: condition_broadcast_def tlempty_def)

lemma condition_broadcast_wf:
  assumes rl: "tl_wf (threads s) (ready_list s) rs"
    and wl: "tl_wf (threads s) (wait_list s c) ws"
    and dj: "set rs \<inter> set ws = {}"
    and wt: "\<forall>p\<in>set ws. state (threads s p) = THREAD_WAITING \<and> wait_cond (threads s p) = Some c"
  shows "\<exists>s'. condition_broadcast c s = Some (Inr s')
           \<and> tl_wf (threads s') (ready_list s') (rs @ ws)
           \<and> wait_list s' c = \<lparr>head = None, tail = None\<rparr>
           \<and> (\<forall>d. d \<noteq> c \<longrightarrow> wait_list s' d = wait_list s d)
           \<and> thrtab s' = thrtab s \<and> curthr s' = curthr s \<and> kmem s' = kmem s
           \<and> freed_pages s' = freed_pages s \<and> kfreed s' = kfreed s
           \<and> (\<forall>p. unlinked (threads s' p) = unlinked (threads (woken ws s) p))
           \<and> (\<forall>p. p \<notin> set ws \<and> (rs = [] \<or> p \<noteq> last rs) \<longrightarrow> threads s' p = threads s p)"
proof (cases "ws = []")
  case True
  then have "head (wait_list s c) = None" "tail (wait_list s c) = None" using wl by auto
  then have e: "wait_list s c = \<lparr>head = None, tail = None\<rparr>" by simp
  show ?thesis using True rl e condition_broadcast_empty[of s c] by simp
next
  case False
  then have ne: "\<not> tlempty s (Wait_list c)"
    using tl_wf_head_None[OF wl] by (simp add: tlempty_def)
  have il: "is_list (threads s) (head (wait_list s c)) ws" and d: "distinct ws"
    using wl by (auto simp add: tl_wf_def)
  have bl: "broadcast_loop c (head (get_list s (Wait_list c))) s = Some (Inr (woken ws s))"
    using broadcast_loop_wakes[OF il d wt] by simp
  have rl': "tl_wf (threads (woken ws s)) (get_list (woken ws s) Ready_list) rs"
    using tl_wf_frame[OF rl, of "threads (woken ws s)"] by simp
  have wl': "tl_wf (threads (woken ws s)) (get_list (woken ws s) (Wait_list c)) ws"
    using tl_wf_frame[OF wl, of "threads (woken ws s)"] by simp
  have ne2: "Ready_list \<noteq> Wait_list c" by simp
  from tlappend_wf[OF rl' wl' dj ne2] obtain s2 where
    s2: "tlappend Ready_list (Wait_list c) (woken ws s) = Inr s2"
      "tl_wf (threads s2) (get_list s2 Ready_list) (rs @ ws)"
      "\<forall>l'. l' \<noteq> Ready_list \<and> l' \<noteq> Wait_list c \<longrightarrow> get_list s2 l' = get_list (woken ws s) l'"
      "thrtab s2 = thrtab (woken ws s)" "curthr s2 = curthr (woken ws s)"
      "kmem s2 = kmem (woken ws s)"
      "freed_pages s2 = freed_pages (woken ws s)" "kfreed s2 = kfreed (woken ws s)"
      "\<forall>p. unlinked (threads s2 p) = unlinked (threads (woken ws s) p)"
      "\<forall>p. rs = [] \<or> ws = [] \<or> p \<noteq> last rs \<longrightarrow> threads s2 p = threads (woken ws s) p"
    by blast
  let ?s' = "tlclear (Wait_list c) s2"
  have r: "condition_broadcast c s = Some (Inr ?s')"
    using ne bl s2(1) by (simp add: condition_broadcast_def)
  have other: "\<forall>d. d \<noteq> c \<longrightarrow> wait_list ?s' d = wait_list s d"
  proof (intro allI impI)
    fix d assume "d \<noteq> c"
    then have "wait_list s2 d = wait_list s d"
      using s2(3)[rule_format, of "Wait_list d"] by simp
    then show "wait_list ?s' d = wait_list s d"
      using \<open>d \<noteq> c\<close> by (simp add: tlclear_def set_list_def)
  qed
  have rdy: "tl_wf (threads ?s') (ready_list ?s') (rs @ ws)"
    using s2(2) by (simp add: tlclear_def set_list_def)
  have cl: "wait_list ?s' c = \<lparr>head = None, tail = None\<rparr>"
    by (simp add: tlclear_def set_list_def)
  have fr: "\<forall>p. p \<notin> set ws \<and> (rs = [] \<or> p \<noteq> last rs) \<longrightarrow> threads ?s' p = threads s p"
    using s2(10) by auto
  have ul: "\<forall>p. unlinked (threads ?s' p) = unlinked (threads (woken ws s) p)"
    using s2(9) by simp
  show ?thesis
    unfolding r using rdy cl other fr ul s2(4-8)
    by (intro exI[of _ ?s']) simp
qed




text \<open>Evaluating the operations on the example states.\<close>

lemmas ev_defs = thread_spawn_def thread_yield_def suspend_self_def suspend_self_switch_def
  suspend_self_return_def thread_exit_def condition_broadcast_def tlinsert_def tlremove_def
  tlempty_def Let_def upd_thread_def set_list_def get_list_def

lemma booted_fields:
  "threads booted = (\<lambda>p. zero_thread)
        (main_thread := \<lparr>name = ''main'', stack_base = 0x80020000, stack_size = 4096,
                         state = THREAD_RUNNING, id_thr = 0, proc = None,
                         parent = None, list_next = None, wait_cond = None\<rparr>,
         idle_thread := \<lparr>name = ''idle'', stack_base = 0x80022000, stack_size = 4096,
                         state = THREAD_READY, id_thr = 15, proc = None,
                         parent = Some main_thread, list_next = None, wait_cond = None\<rparr>)"
  "thrtab booted = (\<lambda>i. None)(0 := Some main_thread, 15 := Some idle_thread)"
  "ready_list booted = \<lparr>head = Some idle_thread, tail = Some idle_thread\<rparr>"
  "wait_list booted = no_waiters"
  "curthr booted = main_thread"
  "kmem booted = (\<lambda>a. 0)"
  "freed_pages booted = []"
  "kfreed booted = []"
  by (simp_all add: booted_def)

lemma spawn_find_slot_booted: "spawn_find_slot booted 0 = 1"
  by (rule spawn_find_slot_least) (simp_all add: booted_def NTHR_def)


lemma run_spawn:
  "\<exists>s1. thread_spawn ''t'' 2 0x80100000 booted = Inr (s1, 1)
     \<and> curthr s1 = main_thread
     \<and> ready_list s1 = \<lparr>head = Some idle_thread, tail = Some 2\<rparr>
     \<and> list_next (threads s1 idle_thread) = Some 2
     \<and> list_next (threads s1 2) = None
     \<and> state (threads s1 main_thread) = THREAD_RUNNING
     \<and> state (threads s1 idle_thread) = THREAD_READY
     \<and> state (threads s1 2) = THREAD_READY
     \<and> parent (threads s1 2) = Some main_thread
     \<and> stack_base (threads s1 2) = 0x80100FF0
     \<and> wait_list s1 = no_waiters
     \<and> freed_pages s1 = []"
  by (simp add: ev_defs spawn_find_slot_booted NTHR_def booted_fields main_thread_def
      idle_thread_def PAGE_SIZE_def sizeof_thread_stack_anchor_def)

lemma run_yield_main:
  assumes "curthr s1 = main_thread"
     "ready_list s1 = \<lparr>head = Some idle_thread, tail = Some 2\<rparr>"
     "list_next (threads s1 idle_thread) = Some 2"
     "list_next (threads s1 2) = None"
     "state (threads s1 main_thread) = THREAD_RUNNING"
     "state (threads s1 idle_thread) = THREAD_READY"
     "state (threads s1 2) = THREAD_READY"
     "parent (threads s1 2) = Some main_thread"
     "stack_base (threads s1 2) = 0x80100FF0"
     "wait_list s1 = no_waiters"
     "freed_pages s1 = []"
  shows "\<exists>s2. thread_yield False s1 = Inr s2
     \<and> curthr s2 = idle_thread
     \<and> ready_list s2 = \<lparr>head = Some 2, tail = Some main_thread\<rparr>
     \<and> list_next (threads s2 2) = Some main_thread
     \<and> list_next (threads s2 main_thread) = None
     \<and> state (threads s2 main_thread) = THREAD_READY
     \<and> state (threads s2 idle_thread) = THREAD_RUNNING
     \<and> state (threads s2 2) = THREAD_READY
     \<and> parent (threads s2 2) = Some main_thread
     \<and> stack_base (threads s2 2) = 0x80100FF0
     \<and> wait_list s2 = no_waiters
     \<and> freed_pages s2 = []"
  using assms
  by (simp add: ev_defs main_thread_def idle_thread_def)

lemma run_yield_idle:
  assumes "curthr s2 = idle_thread"
     "ready_list s2 = \<lparr>head = Some 2, tail = Some main_thread\<rparr>"
     "list_next (threads s2 2) = Some main_thread"
     "list_next (threads s2 main_thread) = None"
     "state (threads s2 main_thread) = THREAD_READY"
     "state (threads s2 idle_thread) = THREAD_RUNNING"
     "state (threads s2 2) = THREAD_READY"
     "parent (threads s2 2) = Some main_thread"
     "stack_base (threads s2 2) = 0x80100FF0"
     "wait_list s2 = no_waiters"
     "freed_pages s2 = []"
  shows "\<exists>s3. thread_yield False s2 = Inr s3
     \<and> curthr s3 = 2
     \<and> ready_list s3 = \<lparr>head = Some main_thread, tail = Some idle_thread\<rparr>
     \<and> list_next (threads s3 main_thread) = Some idle_thread
     \<and> list_next (threads s3 idle_thread) = None
     \<and> state (threads s3 main_thread) = THREAD_READY
     \<and> state (threads s3 idle_thread) = THREAD_READY
     \<and> state (threads s3 2) = THREAD_RUNNING
     \<and> parent (threads s3 2) = Some main_thread
     \<and> stack_base (threads s3 2) = 0x80100FF0
     \<and> wait_list s3 = no_waiters
     \<and> freed_pages s3 = []"
  using assms
  by (simp add: ev_defs main_thread_def idle_thread_def)

lemma run_exit:
  assumes "curthr s3 = 2"
     "ready_list s3 = \<lparr>head = Some main_thread, tail = Some idle_thread\<rparr>"
     "list_next (threads s3 main_thread) = Some idle_thread"
     "list_next (threads s3 idle_thread) = None"
     "state (threads s3 main_thread) = THREAD_READY"
     "state (threads s3 idle_thread) = THREAD_READY"
     "state (threads s3 2) = THREAD_RUNNING"
     "parent (threads s3 2) = Some main_thread"
     "stack_base (threads s3 2) = 0x80100FF0"
     "wait_list s3 = no_waiters"
     "freed_pages s3 = []"
  shows "\<exists>s4. thread_exit True s3 = Some (Inr s4)
     \<and> curthr s4 = main_thread
     \<and> state (threads s4 main_thread) = THREAD_RUNNING
     \<and> state (threads s4 2) = THREAD_EXITED
     \<and> freed_pages s4 = [0x800FFFF0]"
  using assms
  by (simp add: ev_defs main_thread_def idle_thread_def no_waiters_def PAGE_SIZE_def)







lemma get_list_other_fields [simp]:
  "get_list (s\<lparr>curthr := x\<rparr>) l = get_list s l"
  "get_list (s\<lparr>freed_pages := fp\<rparr>) l = get_list s l"
  "get_list (s\<lparr>kmem := m\<rparr>) l = get_list s l"
  "get_list (s\<lparr>thrtab := tb\<rparr>) l = get_list s l"
  by (simp_all add: get_list_def split: lref.splits)

lemma lists_wf_curthr [simp]: "lists_wf (s\<lparr>curthr := x\<rparr>) A = lists_wf s A"
  by (simp add: lists_wf_def)




















section \<open>Thread creation\<close>

text \<open>
  C2, as the claim states it, fails: with every slot of the table taken, \<open>thread_spawn\<close>
  does not return an error to its caller; it calls \<open>panic("Too many threads")\<close>,
  which halts the machine.
\<close>

theorem thread_spawn_panics_when_full_counterexample:
  "thread_spawn ''t'' 16 0x80100000 full_table = Inl (Panic ''Too many threads'')"
  by (rule thread_spawn_full) (simp add: full_table_def)

text \<open>
  C2, amended. When every slot of index 1 to \<open>NTHR - 1\<close> of the thread table is
  occupied, \<open>thread_spawn\<close> panics with "Too many threads" and creates no thread.
  When \<open>m\<close> is the smallest free index among 1 to \<open>NTHR - 1\<close> (and the ready list
  has a head exactly when it has a tail, so that \<open>tlinsert\<close> passes its assertions),
  \<open>thread_spawn\<close> returns \<open>m\<close> as the new thread id, with the new thread in slot
  \<open>m\<close>, carrying that id, in state \<open>READY\<close>.
\<close>

theorem thread_spawn_panics_or_smallest_free:
  "((\<forall>i. 0 < i \<and> i < NTHR \<longrightarrow> thrtab s i \<noteq> None)
      \<longrightarrow> thread_spawn nm child stack_page s = Inl (Panic ''Too many threads''))
   \<and> (0 < m \<and> m < NTHR \<and> thrtab s m = None \<and> (\<forall>j. 0 < j \<and> j < m \<longrightarrow> thrtab s j \<noteq> None)
        \<and> (head (ready_list s) = None) = (tail (ready_list s) = None)
      \<longrightarrow> (\<exists>s'. thread_spawn nm child stack_page s = Inr (s', int m)
                \<and> thrtab s' = (thrtab s)(m := Some child)
                \<and> id_thr (threads s' child) = int m
                \<and> state (threads s' child) = THREAD_READY))"
proof (intro conjI impI)
  assume "\<forall>i. 0 < i \<and> i < NTHR \<longrightarrow> thrtab s i \<noteq> None"
  then show "thread_spawn nm child stack_page s = Inl (Panic ''Too many threads'')"
    by (rule thread_spawn_full)
next
  assume a: "0 < m \<and> m < NTHR \<and> thrtab s m = None
       \<and> (\<forall>j. 0 < j \<and> j < m \<longrightarrow> thrtab s j \<noteq> None)
       \<and> (head (ready_list s) = None) = (tail (ready_list s) = None)"
  then have m: "0 < m" "m < NTHR" "thrtab s m = None"
    "\<forall>j. 0 < j \<and> j < m \<longrightarrow> thrtab s j \<noteq> None"
    "(head (ready_list s) = None) = (tail (ready_list s) = None)"
    by simp_all
  from thread_spawn_free[OF m, of nm child stack_page] obtain s' where
    "thread_spawn nm child stack_page s = Inr (s', int m)"
    "thrtab s' = (thrtab s)(m := Some child)"
    "id_thr (threads s' child) = int m"
    "state (threads s' child) = THREAD_READY"
    by blast
  then show "\<exists>s'. thread_spawn nm child stack_page s = Inr (s', int m)
                \<and> thrtab s' = (thrtab s)(m := Some child)
                \<and> id_thr (threads s' child) = int m
                \<and> state (threads s' child) = THREAD_READY"
    by (intro exI[of _ s']) simp
qed

theorem thread_spawn_panics_or_smallest_free_witness:
  "thread_spawn ''t'' 16 0x80100000 full_table = Inl (Panic ''Too many threads'')
   \<and> (\<exists>s'. thread_spawn ''t'' 2 0x80100000 booted = Inr (s', 1)
          \<and> thrtab s' = (thrtab booted)(1 := Some 2)
          \<and> id_thr (threads s' 2) = 1
          \<and> state (threads s' 2) = THREAD_READY)"
proof -
  have f: "\<forall>i. 0 < i \<and> i < NTHR \<longrightarrow> thrtab full_table i \<noteq> None"
    by (simp add: full_table_def)
  have b: "0 < (1::nat) \<and> 1 < NTHR \<and> thrtab booted 1 = None
        \<and> (\<forall>j. 0 < j \<and> j < 1 \<longrightarrow> thrtab booted j \<noteq> None)
        \<and> (head (ready_list booted) = None) = (tail (ready_list booted) = None)"
    by (simp add: booted_def NTHR_def)
  note t1 = thread_spawn_panics_or_smallest_free
      [of full_table "''t''" 16 "0x80100000" 1, THEN conjunct1, THEN mp, OF f]
  note t2 = thread_spawn_panics_or_smallest_free
      [of booted "''t''" 2 "0x80100000" 1, THEN conjunct2, THEN mp, OF b]
  from t2 obtain s' where "thread_spawn ''t'' 2 0x80100000 booted = Inr (s', int 1)"
    "thrtab s' = (thrtab booted)(1 := Some 2)" "id_thr (threads s' 2) = int 1"
    "state (threads s' 2) = THREAD_READY" by blast
  then have ex: "\<exists>s'. thread_spawn ''t'' 2 0x80100000 booted = Inr (s', 1)
          \<and> thrtab s' = (thrtab booted)(1 := Some 2)
          \<and> id_thr (threads s' 2) = 1
          \<and> state (threads s' 2) = THREAD_READY"
    by (intro exI[of _ s']) simp
  show ?thesis by (rule conjI[OF t1 ex])
qed

section \<open>Recycling a thread, waking the waiters of a condition\<close>

text \<open>
  C9. For every exited thread \<open>thr\<close> in slot \<open>tid\<close> (with \<open>0 < tid < NTHR\<close>),
  in a state where the thread of slot 0, the main thread, has no parent,
  \<open>recycle_thread\<close> returns, and afterwards: every thread of the table whose parent was
  \<open>thr\<close> has the parent of \<open>thr\<close> as its parent and is otherwise unchanged; slot
  \<open>tid\<close> is \<open>NULL\<close> and every other slot is as before; the struct of every thread
  that was not a child of \<open>thr\<close> is unchanged; and \<open>thr\<close> has been passed to
  \<open>kfree\<close>.
\<close>

theorem recycle_thread_reparents:
  assumes tid: "0 < tid" "tid < int NTHR"
    and thr: "thrtab s (nat tid) = Some thr"
    and ex: "state (threads s thr) = THREAD_EXITED"
    and main: "\<forall>p. thrtab s 0 = Some p \<longrightarrow> parent (threads s p) = None"
  shows "\<exists>s'. recycle_thread tid s = Inr s'
           \<and> (\<forall>c\<in>live s. parent (threads s c) = Some thr
                 \<longrightarrow> threads s' c = (threads s c)\<lparr>parent := parent (threads s thr)\<rparr>)
           \<and> thrtab s' (nat tid) = None
           \<and> (\<forall>i. i \<noteq> nat tid \<longrightarrow> thrtab s' i = thrtab s i)
           \<and> (\<forall>p. parent (threads s p) \<noteq> Some thr \<longrightarrow> threads s' p = threads s p)
           \<and> kfreed s' = kfreed s @ [thr]"
proof -
  let ?s' = "(reparent_loop thr 1 s)\<lparr>thrtab := (thrtab s)(nat tid := None),
                                          kfreed := kfreed s @ [thr]\<rparr>"
  have r: "recycle_thread tid s = Inr ?s'"
    by (rule recycle_thread_effect[OF tid thr ex])
  have th: "\<And>p. threads ?s' p =
     (if (\<exists>i. 1 \<le> i \<and> i < NTHR \<and> thrtab s i = Some p) \<and> parent (threads s p) = Some thr
      then (threads s p)\<lparr>parent := parent (threads s thr)\<rparr>
      else threads s p)"
    using reparent_loop_threads[of thr 1 s] by simp
  have ch: "\<forall>c\<in>live s. parent (threads s c) = Some thr
                 \<longrightarrow> threads ?s' c = (threads s c)\<lparr>parent := parent (threads s thr)\<rparr>"
  proof (intro ballI impI)
    fix c assume c: "c \<in> live s" and p: "parent (threads s c) = Some thr"
    then obtain i where i: "i < NTHR" "thrtab s i = Some c" by (auto simp add: live_def)
    have "i \<noteq> 0" using main i p by (cases "i = 0") auto
    then have "\<exists>i. 1 \<le> i \<and> i < NTHR \<and> thrtab s i = Some c" using i by (intro exI[of _ i]) simp
    then show "threads ?s' c = (threads s c)\<lparr>parent := parent (threads s thr)\<rparr>"
      using p by (simp only: th if_True simp_thms)
  qed
  have nch: "\<forall>p. parent (threads s p) \<noteq> Some thr \<longrightarrow> threads ?s' p = threads s p"
    by (simp only: th) simp
  show ?thesis
    unfolding r using ch nch by (intro exI[of _ ?s']) simp
qed

theorem recycle_thread_reparents_witness:
  "\<exists>s'. recycle_thread 1 family = Inr s'
      \<and> parent (threads s' 3) = Some main_thread
      \<and> thrtab s' 1 = None \<and> thrtab s' 2 = Some 3 \<and> thrtab s' 3 = Some 4
      \<and> threads s' 4 = threads family 4
      \<and> kfreed s' = [2]"
proof -
  have h: "0 < (1::int)" "(1::int) < int NTHR" "thrtab family (nat 1) = Some 2"
    "state (threads family 2) = THREAD_EXITED"
    "\<forall>p. thrtab family 0 = Some p \<longrightarrow> parent (threads family p) = None"
    by (simp_all add: family_def booted_def NTHR_def zero_thread_def main_thread_def idle_thread_def)
  from recycle_thread_reparents[OF h] obtain s' where
    s': "recycle_thread 1 family = Inr s'"
      "\<forall>c\<in>live family. parent (threads family c) = Some 2
                 \<longrightarrow> threads s' c = (threads family c)\<lparr>parent := parent (threads family 2)\<rparr>"
      "thrtab s' (nat 1) = None"
      "\<forall>i. i \<noteq> nat 1 \<longrightarrow> thrtab s' i = thrtab family i"
      "\<forall>p. parent (threads family p) \<noteq> Some 2 \<longrightarrow> threads s' p = threads family p"
      "kfreed s' = kfreed family @ [2]"
    by blast
  have l3: "3 \<in> live family"
    unfolding live_def by (rule CollectI, rule exI[of _ 2]) (simp add: family_def NTHR_def)
  have p3: "parent (threads family 3) = Some 2" "parent (threads family 2) = Some main_thread"
    "parent (threads family 4) \<noteq> Some 2"
    by (simp_all add: family_def zero_thread_def main_thread_def)
  have a: "parent (threads s' 3) = Some main_thread"
    using s'(2)[rule_format, OF l3 p3(1)] p3(2) by simp
  have b: "thrtab s' 2 = Some 3" "thrtab s' 3 = Some 4"
    using s'(4)[rule_format, of 2] s'(4)[rule_format, of 3] by (simp_all add: family_def)
  have c: "threads s' 4 = threads family 4" using s'(5)[rule_format, OF p3(3)] .
  have d: "kfreed s' = [2]" using s'(6) by (simp add: family_def booted_def)
  have e: "thrtab s' 1 = None" using s'(3) by simp
  show ?thesis using s'(1) a b c d e by (intro exI[of _ s']) simp
qed

text \<open>
  C6. Let the wait list of the condition \<open>c\<close> hold the threads \<open>ws\<close> and the ready
  list the threads \<open>rs\<close>, in this order, no thread being in both, and every waiter
  being \<open>WAITING\<close> on \<open>c\<close> (what the loop asserts). Then \<open>condition_broadcast\<close>
  returns; every waiter has become \<open>READY\<close> with \<open>wait_cond\<close> cleared; the ready list
  holds \<open>rs\<close> followed by \<open>ws\<close> in the same order; the wait list of \<open>c\<close> is
  empty; and with an empty wait list the state is unchanged.
\<close>

theorem condition_broadcast_appends_waiters:
  assumes rl: "tl_wf (threads s) (ready_list s) rs"
    and wl: "tl_wf (threads s) (wait_list s c) ws"
    and dj: "set rs \<inter> set ws = {}"
    and wt: "\<forall>p\<in>set ws. state (threads s p) = THREAD_WAITING \<and> wait_cond (threads s p) = Some c"
  shows "\<exists>s'. condition_broadcast c s = Some (Inr s')
           \<and> (\<forall>p\<in>set ws. state (threads s' p) = THREAD_READY \<and> wait_cond (threads s' p) = None)
           \<and> tl_wf (threads s') (ready_list s') (rs @ ws)
           \<and> tl_wf (threads s') (wait_list s' c) []
           \<and> (ws = [] \<longrightarrow> s' = s)"
proof -
  from condition_broadcast_wf[OF rl wl dj wt] obtain s' where
    s': "condition_broadcast c s = Some (Inr s')"
      "tl_wf (threads s') (ready_list s') (rs @ ws)"
      "wait_list s' c = \<lparr>head = None, tail = None\<rparr>"
      "\<forall>p. unlinked (threads s' p) = unlinked (threads (woken ws s) p)"
    by blast
  have st: "\<forall>p\<in>set ws. state (threads s' p) = THREAD_READY \<and> wait_cond (threads s' p) = None"
  proof
    fix p assume p: "p \<in> set ws"
    note u = unlinked_eqD[OF s'(4)[rule_format, of p]]
    show "state (threads s' p) = THREAD_READY \<and> wait_cond (threads s' p) = None"
      using u(4) u(8) p by simp
  qed
  have e: "ws = [] \<longrightarrow> s' = s"
  proof
    assume "ws = []"
    then have "head (wait_list s c) = None" using wl by simp
    from condition_broadcast_empty[OF this] s'(1) show "s' = s" by simp
  qed
  show ?thesis using s'(1,2,3) st e by (intro exI[of _ s']) simp
qed

theorem condition_broadcast_appends_waiters_witness:
  "\<exists>s'. condition_broadcast (Cond 0) two_waiters = Some (Inr s')
      \<and> state (threads s' 2) = THREAD_READY \<and> wait_cond (threads s' 2) = None
      \<and> state (threads s' 3) = THREAD_READY \<and> wait_cond (threads s' 3) = None
      \<and> tl_wf (threads s') (ready_list s') [idle_thread, 2, 3]
      \<and> tl_wf (threads s') (wait_list s' (Cond 0)) []"
proof -
  have rl: "tl_wf (threads two_waiters) (ready_list two_waiters) [idle_thread]"
    by (simp add: tl_wf_def two_waiters_def booted_def idle_thread_def main_thread_def zero_thread_def)
  have wl: "tl_wf (threads two_waiters) (wait_list two_waiters (Cond 0)) [2, 3]"
    by (simp add: tl_wf_def two_waiters_def booted_def idle_thread_def main_thread_def zero_thread_def)
  have dj: "set [idle_thread] \<inter> set [2, 3] = {}" by (simp add: idle_thread_def)
  have wt: "\<forall>p\<in>set [2, 3]. state (threads two_waiters p) = THREAD_WAITING
              \<and> wait_cond (threads two_waiters p) = Some (Cond 0)"
    by (simp add: two_waiters_def zero_thread_def)
  from condition_broadcast_appends_waiters[OF rl wl dj wt] obtain s' where
    s': "condition_broadcast (Cond 0) two_waiters = Some (Inr s')"
      "\<forall>p\<in>set [2, 3]. state (threads s' p) = THREAD_READY \<and> wait_cond (threads s' p) = None"
      "tl_wf (threads s') (ready_list s') ([idle_thread] @ [2, 3])"
      "tl_wf (threads s') (wait_list s' (Cond 0)) []"
    by blast
  show ?thesis using s' by (intro exI[of _ s']) simp
qed

section \<open>Fork\<close>



section \<open>The stack page of an exited thread\<close>

text \<open>
  C5. The code does not do what the claim says. \<open>thread_spawn\<close> sets \<open>stack_base\<close>
  to the stack anchor, \<open>sizeof(struct thread_stack_anchor)\<close> bytes below the end of the
  page, and \<open>suspend_self\<close> passes \<open>stack_base - PAGE_SIZE\<close> to
  \<open>memory_free_page\<close>: for every page, that is the address
  \<open>sizeof(struct thread_stack_anchor)\<close> bytes below the page, not the page. In the run
  \<open>spawned_thread_exits\<close> the thread spawned with the stack page \<open>0x80100000\<close>
  exits, main is resumed, and the one address passed to \<open>memory_free_page\<close> is
  \<open>0x800FFFF0\<close>.
\<close>

theorem exited_thread_stack_page_not_freed:
  "(\<exists>s. spawned_thread_exits = Some (Inr s)
        \<and> state (threads s 2) = THREAD_EXITED
        \<and> freed_pages s = [0x800FFFF0])
   \<and> (0x800FFFF0 :: 64 word) \<noteq> 0x80100000
   \<and> (\<forall>stack_page :: 64 word.
         stack_page + PAGE_SIZE - sizeof_thread_stack_anchor - PAGE_SIZE
           = stack_page - sizeof_thread_stack_anchor
         \<and> stack_page - sizeof_thread_stack_anchor \<noteq> stack_page)"
proof -
  from run_spawn obtain s1 where
    s1: "thread_spawn ''t'' 2 0x80100000 booted = Inr (s1, 1)" and
    f1: "curthr s1 = main_thread"
     "ready_list s1 = \<lparr>head = Some idle_thread, tail = Some 2\<rparr>"
     "list_next (threads s1 idle_thread) = Some 2"
     "list_next (threads s1 2) = None"
     "state (threads s1 main_thread) = THREAD_RUNNING"
     "state (threads s1 idle_thread) = THREAD_READY"
     "state (threads s1 2) = THREAD_READY"
     "parent (threads s1 2) = Some main_thread"
     "stack_base (threads s1 2) = 0x80100FF0"
     "wait_list s1 = no_waiters"
     "freed_pages s1 = []"
    by blast
  from run_yield_main[OF f1] obtain s2 where
    s2: "thread_yield False s1 = Inr s2" and
    f2: "curthr s2 = idle_thread"
     "ready_list s2 = \<lparr>head = Some 2, tail = Some main_thread\<rparr>"
     "list_next (threads s2 2) = Some main_thread"
     "list_next (threads s2 main_thread) = None"
     "state (threads s2 main_thread) = THREAD_READY"
     "state (threads s2 idle_thread) = THREAD_RUNNING"
     "state (threads s2 2) = THREAD_READY"
     "parent (threads s2 2) = Some main_thread"
     "stack_base (threads s2 2) = 0x80100FF0"
     "wait_list s2 = no_waiters"
     "freed_pages s2 = []"
    by blast
  from run_yield_idle[OF f2] obtain s3 where
    s3: "thread_yield False s2 = Inr s3" and
    f3: "curthr s3 = 2"
     "ready_list s3 = \<lparr>head = Some main_thread, tail = Some idle_thread\<rparr>"
     "list_next (threads s3 main_thread) = Some idle_thread"
     "list_next (threads s3 idle_thread) = None"
     "state (threads s3 main_thread) = THREAD_READY"
     "state (threads s3 idle_thread) = THREAD_READY"
     "state (threads s3 2) = THREAD_RUNNING"
     "parent (threads s3 2) = Some main_thread"
     "stack_base (threads s3 2) = 0x80100FF0"
     "wait_list s3 = no_waiters"
     "freed_pages s3 = []"
    by blast
  from run_exit[OF f3] obtain s4 where
    s4: "thread_exit True s3 = Some (Inr s4)" "state (threads s4 2) = THREAD_EXITED"
      "freed_pages s4 = [0x800FFFF0]"
    by blast
  have run: "spawned_thread_exits = Some (Inr s4)"
    by (simp add: spawned_thread_exits_def s1 s2 s3 s4(1))
  have a: "\<exists>s. spawned_thread_exits = Some (Inr s)
        \<and> state (threads s 2) = THREAD_EXITED \<and> freed_pages s = [0x800FFFF0]"
    using run s4(2,3) by (intro exI[of _ s4]) simp
  have b: "(0x800FFFF0 :: 64 word) \<noteq> 0x80100000" by simp
  have c: "\<forall>stack_page :: 64 word.
         stack_page + PAGE_SIZE - sizeof_thread_stack_anchor - PAGE_SIZE
           = stack_page - sizeof_thread_stack_anchor
         \<and> stack_page - sizeof_thread_stack_anchor \<noteq> stack_page"
    by (simp add: sizeof_thread_stack_anchor_def)
  show ?thesis using a b c by (intro conjI)
qed

section \<open>The scheduler invariant\<close>



section \<open>The I/O helpers: proofs\<close>

lemma unat_acc_step:
  fixes acc cnt n :: "64 word"
  assumes "acc < n" "cnt \<le> n - acc"
  shows "unat (acc + cnt) = unat acc + unat cnt" "acc + cnt \<le> n"
proof -
  have a: "unat acc \<le> unat n" using assms(1) by (simp add: word_less_nat_alt)
  have ule: "unat cnt \<le> unat n - unat acc"
    using assms by (simp add: word_le_nat_alt word_less_nat_alt unat_sub)
  have "unat n < 2 ^ LENGTH(64)" by (rule unsigned_less)
  then have "unat acc + unat cnt < 2 ^ LENGTH(64)" using ule a by linarith
  then show s: "unat (acc + cnt) = unat acc + unat cnt" by (simp only: unat_add_lem)
  show "acc + cnt \<le> n" using s ule a by (simp add: word_le_nat_alt)
qed

lemma sint_positive: "\<not> sint (c::64 word) < 0 \<Longrightarrow> c \<noteq> 0 \<Longrightarrow> 0 < sint c"
  by (metis linorder_neqE_linordered_idom signed_eq_0_iff)

lemma ioread_full_loop_returns:
  assumes h: "returns_at_most_asked rd"
  shows "acc \<le> bufsz \<Longrightarrow>
         \<exists>s' r. ioread_full_loop rd b bufsz s acc = Some (s', r)
              \<and> full_transfer rd b bufsz s acc (s', r)
              \<and> (sint r < 0 \<or> r \<le> bufsz)"
proof (induction "unat bufsz - unat acc" arbitrary: s acc rule: less_induct)
  case less
  show ?case
  proof (cases "acc < bufsz")
    case False
    then show ?thesis using less.prems
      by (subst ioread_full_loop.simps) (simp add: full_transfer.transferred)
  next
    case True
    obtain s1 cnt where r: "rd s (b + acc) (bufsz - acc) = (s1, cnt)" by force
    from h have hc: "sint cnt < 0 \<or> cnt \<le> bufsz - acc"
      unfolding returns_at_most_asked_def using r by (metis snd_conv)
    show ?thesis
    proof (cases "sint cnt < 0")
      case neg: True
      then show ?thesis using True r
        by (subst ioread_full_loop.simps) (simp add: full_transfer.failed)
    next
      case nneg: False
      show ?thesis
      proof (cases "cnt = 0")
        case z: True
        then show ?thesis using True r nneg less.prems
          by (subst ioread_full_loop.simps) (simp add: full_transfer.no_progress)
      next
        case nz: False
        from hc nneg have le: "cnt \<le> bufsz - acc" by simp
        note st = unat_acc_step[OF True le]
        have pos: "0 < unat cnt" using nz by (simp add: unat_gt_0)
        have dec: "unat bufsz - unat (acc + cnt) < unat bufsz - unat acc"
          using st(1) pos True by (simp add: word_less_nat_alt)
        from less.hyps[OF dec st(2)] obtain s' r' where
          ih: "ioread_full_loop rd b bufsz s1 (acc + cnt) = Some (s', r')"
              "full_transfer rd b bufsz s1 (acc + cnt) (s', r')"
              "sint r' < 0 \<or> r' \<le> bufsz" by blast
        have ft: "full_transfer rd b bufsz s acc (s', r')"
          using full_transfer.progress[OF True r sint_positive[OF nneg nz] ih(2)] .
        show ?thesis using True r nneg nz ih(1,3) ft
          by (subst ioread_full_loop.simps) simp
      qed
    qed
  qed
qed

lemma iowrite_loop_returns:
  assumes h: "returns_at_most_asked wr"
  shows "acc \<le> n \<Longrightarrow>
         \<exists>s' r. iowrite_loop wr b n s acc = Some (s', r)
              \<and> full_transfer wr b n s acc (s', r)
              \<and> (sint r < 0 \<or> r \<le> n)"
proof (induction "unat n - unat acc" arbitrary: s acc rule: less_induct)
  case less
  show ?case
  proof (cases "acc < n")
    case False
    then show ?thesis using less.prems
      by (subst iowrite_loop.simps) (simp add: full_transfer.transferred)
  next
    case True
    obtain s1 cnt where r: "wr s (b + acc) (n - acc) = (s1, cnt)" by force
    from h have hc: "sint cnt < 0 \<or> cnt \<le> n - acc"
      unfolding returns_at_most_asked_def using r by (metis snd_conv)
    consider (neg) "sint cnt < 0" | (zero) "\<not> sint cnt < 0" "cnt = 0"
      | (more) "\<not> sint cnt < 0" "cnt \<noteq> 0" by blast
    then show ?thesis
    proof cases
      case neg
      then show ?thesis using True r
        by (subst iowrite_loop.simps) (simp add: full_transfer.failed)
    next
      case zero
      then show ?thesis using True r less.prems
        by (subst iowrite_loop.simps) (simp add: full_transfer.no_progress)
    next
      case more
      from hc more have le: "cnt \<le> n - acc" by simp
      note st = unat_acc_step[OF True le]
      have pos: "0 < unat cnt" using more by (simp add: unat_gt_0)
      have dec: "unat n - unat (acc + cnt) < unat n - unat acc"
        using st(1) pos True by (simp add: word_less_nat_alt)
      from less.hyps[OF dec st(2)] obtain s' r' where
        ih: "iowrite_loop wr b n s1 (acc + cnt) = Some (s', r')"
            "full_transfer wr b n s1 (acc + cnt) (s', r')"
            "sint r' < 0 \<or> r' \<le> n" by blast
      have ft: "full_transfer wr b n s acc (s', r')"
        using full_transfer.progress[OF True r sint_positive[OF more] ih(2)] .
      show ?thesis using True r more ih(1,3) ft
        by (subst iowrite_loop.simps) simp
    qed
  qed
qed

lemma sint_neg_ENOTSUP: "sint (- ENOTSUP) < 0"
  by (simp add: ENOTSUP_def)

lemma sint_neg_EINVAL: "sint (- EINVAL) < 0"
  by (simp add: EINVAL_def)

text \<open>
  C7, as the claim states it, fails: for a backing operation that reports more bytes
  than it was asked for, the helpers return more than the requested length. Asked for
  2 bytes, a \<open>read\<close> (and a \<open>write\<close>) that answers 5 makes \<open>ioread_full\<close> (and
  \<open>iowrite\<close>) return 5.
\<close>

theorem io_helpers_exceed_request_counterexample:
  "ioread_full (Some (\<lambda>s a n. (s, 5))) 0 2 (0::nat) = Some (0, 5)
   \<and> iowrite (Some (\<lambda>s a n. (s, 5))) 0 2 (0::nat) = Some (0, 5)
   \<and> sint (5 :: 64 word) = 5 \<and> \<not> (5 :: 64 word) \<le> 2"
proof -
  have r: "ioread_full (Some (\<lambda>s a n. (s, 5))) 0 2 (0::nat) = Some (0, 5)"
    unfolding ioread_full_def
    by (simp, subst ioread_full_loop.simps, simp, subst ioread_full_loop.simps, simp)
  have w: "iowrite (Some (\<lambda>s a n. (s, 5))) 0 2 (0::nat) = Some (0, 5)"
    unfolding iowrite_def
    by (simp, subst iowrite_loop.simps, simp, subst iowrite_loop.simps, simp)
  show ?thesis using r w by simp
qed

text \<open>
  C7, amended. For every backing operation that never reports more bytes than it was
  asked for, \<open>ioread_full\<close> and \<open>iowrite\<close> return, and they return what the loop of
  the specification gives: they go on until the full length has been transferred, the
  backing operation returns a negative code (returned unchanged) or it returns 0 (the
  bytes accumulated so far are returned); a result that is not negative is at most the
  requested length. Without a backing operation the helpers return \<open>-ENOTSUP\<close>, a
  negative number.
\<close>

theorem io_helpers_full_transfer:
  assumes "returns_at_most_asked f"
  shows "(\<exists>s' r. ioread_full (Some f) b n s = Some (s', r)
              \<and> full_transfer f b n s 0 (s', r) \<and> (sint r < 0 \<or> r \<le> n))
       \<and> (\<exists>s' r. iowrite (Some f) b n s = Some (s', r)
              \<and> full_transfer f b n s 0 (s', r) \<and> (sint r < 0 \<or> r \<le> n))
       \<and> ioread_full None b n s = Some (s, - ENOTSUP)
       \<and> iowrite None b n s = Some (s, - ENOTSUP)
       \<and> sint (- ENOTSUP) < 0"
proof -
  have z: "(0 :: 64 word) \<le> n" by simp
  have r: "\<exists>s' r. ioread_full (Some f) b n s = Some (s', r)
              \<and> full_transfer f b n s 0 (s', r) \<and> (sint r < 0 \<or> r \<le> n)"
    using ioread_full_loop_returns[OF assms z] by (simp add: ioread_full_def)
  have w: "\<exists>s' r. iowrite (Some f) b n s = Some (s', r)
              \<and> full_transfer f b n s 0 (s', r) \<and> (sint r < 0 \<or> r \<le> n)"
    using iowrite_loop_returns[OF assms z] by (simp add: iowrite_def)
  show ?thesis using r w sint_neg_ENOTSUP by (simp add: ioread_full_def iowrite_def)
qed

theorem io_helpers_full_transfer_witness:
  "returns_at_most_asked (\<lambda>(s::nat) (a::64 word) (n::64 word). (s + 1, min n 2))
   \<and> (\<exists>s' r. ioread_full (Some (\<lambda>s a n. (s + 1, min n 2))) 0 5 (0::nat) = Some (s', r)
          \<and> full_transfer (\<lambda>s a n. (s + 1, min n 2)) 0 5 (0::nat) 0 (s', r)
          \<and> (sint r < 0 \<or> r \<le> 5))
   \<and> ioread_full (Some (\<lambda>s a n. (s + 1, min n 2))) 0 5 (0::nat) = Some (3, 5)"
proof -
  have h: "returns_at_most_asked (\<lambda>(s::nat) (a::64 word) (n::64 word). (s + 1, min n 2))"
    by (simp add: returns_at_most_asked_def)
  have v: "ioread_full (Some (\<lambda>s a n. (s + 1, min n 2))) 0 5 (0::nat) = Some (3, 5)"
    unfolding ioread_full_def
    by (simp, subst ioread_full_loop.simps, simp, subst ioread_full_loop.simps, simp,
        subst ioread_full_loop.simps, simp, subst ioread_full_loop.simps, simp)
  from io_helpers_full_transfer[OF h, of 0 5 0] h v show ?thesis by blast
qed

text \<open>
  C3: \<open>io_lit_read\<close> and \<open>io_lit_write\<close> do not return the number of bytes they
  transfer. On the literal of the five bytes 1 to 5 at position 2, a read of 2 bytes
  delivers the bytes 3 and 4 and a write of 2 bytes stores them; each moves the
  position to 4, that is by \<open>min(2, 5 - 2) = 2\<close> bytes, the number C3 has them return,
  and each returns 0, the value at which the loops of \<open>ioread_full\<close> and \<open>iowrite\<close>
  stop as at the end of the file.
\<close>

theorem io_lit_read_write_return_zero_not_count:
  "io_lit_read \<lparr>buf = [1, 2, 3, 4, 5], size_lit = 5, pos = 2\<rparr> 2
     = Inr (0, \<lparr>buf = [1, 2, 3, 4, 5], size_lit = 5, pos = 4\<rparr>, [3, 4])
   \<and> io_lit_write \<lparr>buf = [1, 2, 3, 4, 5], size_lit = 5, pos = 2\<rparr> [9, 8] 2
     = Inr (0, \<lparr>buf = [1, 2, 9, 8, 5], size_lit = 5, pos = 4\<rparr>)
   \<and> min (2 :: 64 word) (5 - 2) = 2"
  by (simp add: io_lit_read_def io_lit_write_def)

text \<open>
  C8, as the claim states it, fails: \<open>io_lit_ioctl\<close> does not look at the size when it
  sets the position. On a literal of size 3, \<open>IOCTL_SETPOS\<close> with the position 7
  returns 0 and stores 7.
\<close>

theorem io_lit_setpos_counterexample:
  "io_lit_ioctl \<lparr>buf = [1, 2, 3], size_lit = 3, pos = 0\<rparr> IOCTL_SETPOS 7
     = (0, \<lparr>buf = [1, 2, 3], size_lit = 3, pos = 7\<rparr>, 7)"
  by simp

text \<open>
  C8, amended. For every \<open>io_lit\<close> of size \<open>size\<close>, \<open>io_lit_ioctl\<close> with the command
  \<open>IOCTL_SETPOS\<close> and a position greater than \<open>size\<close> returns 0 and stores that
  position; the seek out of range is rejected afterwards: every \<open>io_lit_read\<close> and
  \<open>io_lit_write\<close> at that position returns \<open>-EINVAL\<close>, a negative number, transfers
  nothing and leaves the literal as it is.
\<close>

theorem io_lit_setpos_then_einval:
  assumes "size_lit lit < p"
  shows "io_lit_ioctl lit IOCTL_SETPOS p = (0, lit\<lparr>pos := p\<rparr>, p)
       \<and> io_lit_read (lit\<lparr>pos := p\<rparr>) bufsz = Inr (- EINVAL, lit\<lparr>pos := p\<rparr>, [])
       \<and> io_lit_write (lit\<lparr>pos := p\<rparr>) src n = Inr (- EINVAL, lit\<lparr>pos := p\<rparr>)
       \<and> sint (- EINVAL) < 0"
proof -
  have le: "size_lit lit \<le> p" using assms by simp
  show ?thesis using le sint_neg_EINVAL by (simp add: io_lit_read_def io_lit_write_def)
qed

theorem io_lit_setpos_then_einval_witness:
  "io_lit_ioctl \<lparr>buf = [1, 2, 3], size_lit = 3, pos = 0\<rparr> IOCTL_SETPOS 7
     = (0, \<lparr>buf = [1, 2, 3], size_lit = 3, pos = 7\<rparr>, 7)
   \<and> io_lit_read \<lparr>buf = [1, 2, 3], size_lit = 3, pos = 7\<rparr> 2
     = Inr (- EINVAL, \<lparr>buf = [1, 2, 3], size_lit = 3, pos = 7\<rparr>, [])
   \<and> io_lit_write \<lparr>buf = [1, 2, 3], size_lit = 3, pos = 7\<rparr> [9] 1
     = Inr (- EINVAL, \<lparr>buf = [1, 2, 3], size_lit = 3, pos = 7\<rparr>)"
  using io_lit_setpos_then_einval
    [of "\<lparr>buf = [1, 2, 3], size_lit = 3, pos = 0\<rparr>" 7 2 "[9]" 1]
  by simp

section \<open>The range assertion of the accessors\<close>

text \<open>
  C10. The range condition \<open>0 <= tid || tid < NTHR\<close> asserted by \<open>thread_process\<close>,
  \<open>thread_set_process\<close> and \<open>thread_name\<close> is true of every integer, so none of the
  three ever stops at that assertion; for a \<open>tid\<close> outside the table (below 0, or
  at least \<open>NTHR\<close>, written here as \<open>NTHR + k\<close> and \<open>- 1 - k\<close>) each of them goes
  on to index \<open>thrtab\<close> out of its bounds.
\<close>

theorem tid_range_assertion_is_tautology:
  "tid_range_asserted tid
   \<and> thread_process s tid \<noteq> Inl (Assertion_failed ''0 <= tid || tid < NTHR'')
   \<and> thread_set_process tid pr s \<noteq> Inl (Assertion_failed ''0 <= tid || tid < NTHR'')
   \<and> thread_name s tid \<noteq> Inl (Assertion_failed ''0 <= tid || tid < NTHR'')
   \<and> thread_process s (int NTHR + int k) = Inl (Out_of_bounds (int NTHR + int k))
   \<and> thread_set_process (int NTHR + int k) pr s = Inl (Out_of_bounds (int NTHR + int k))
   \<and> thread_name s (int NTHR + int k) = Inl (Out_of_bounds (int NTHR + int k))
   \<and> thread_process s (- 1 - int k) = Inl (Out_of_bounds (- 1 - int k))
   \<and> thread_set_process (- 1 - int k) pr s = Inl (Out_of_bounds (- 1 - int k))
   \<and> thread_name s (- 1 - int k) = Inl (Out_of_bounds (- 1 - int k))"
proof -
  have taut: "\<And>t. tid_range_asserted t"
    unfolding tid_range_asserted_def NTHR_def by arith
  have hi: "thrtab_at s (int NTHR + int k) = Inl (Out_of_bounds (int NTHR + int k))"
    by (simp add: thrtab_at_def)
  have lo: "thrtab_at s (- 1 - int k) = Inl (Out_of_bounds (- 1 - int k))"
    by (simp add: thrtab_at_def)
  have a1: "thread_process s tid \<noteq> Inl (Assertion_failed ''0 <= tid || tid < NTHR'')"
    by (simp add: taut thread_process_def thrtab_at_def split: option.splits)
  have a2: "thread_set_process tid pr s \<noteq> Inl (Assertion_failed ''0 <= tid || tid < NTHR'')"
    by (simp add: taut thread_set_process_def thrtab_at_def split: option.splits)
  have a3: "thread_name s tid \<noteq> Inl (Assertion_failed ''0 <= tid || tid < NTHR'')"
    by (simp add: taut thread_name_def thrtab_at_def split: option.splits)
  have b: "thread_process s (int NTHR + int k) = Inl (Out_of_bounds (int NTHR + int k))"
    "thread_set_process (int NTHR + int k) pr s = Inl (Out_of_bounds (int NTHR + int k))"
    "thread_name s (int NTHR + int k) = Inl (Out_of_bounds (int NTHR + int k))"
    by (simp_all add: taut hi thread_process_def thread_set_process_def thread_name_def)
  have c: "thread_process s (- 1 - int k) = Inl (Out_of_bounds (- 1 - int k))"
    "thread_set_process (- 1 - int k) pr s = Inl (Out_of_bounds (- 1 - int k))"
    "thread_name s (- 1 - int k) = Inl (Out_of_bounds (- 1 - int k))"
    by (simp_all add: taut lo thread_process_def thread_set_process_def thread_name_def)
  from taut a1 a2 a3 b c show ?thesis
    by blast
qed

end
